theory Spec2Isabelle
  imports Main "HOL-Library.Word"
begin

unbundle bit_operations_syntax

section \<open>The Linux host interface of the vrouter (linux/vr\_host\_interface.c)\<close>

text \<open>
  A shallow embedding of the transmit and receive paths of
  \<^verbatim>\<open>linux/vr_host_interface.c\<close>. C's unsigned types are words of their width
  (\<open>unsigned short\<close> is \<open>16 word\<close>, \<open>unsigned int\<close> is \<open>32 word\<close>), so every
  truncation and wrap-around of the source is in the model. A socket buffer is a record
  of the fields the file reads and writes; the headers inside the buffer are kept in a
  store indexed by their offset from the buffer head, so that two pointers to the same
  header see the same value. Kernel primitives the file calls, and that no file of the
  module defines, are the fields of the record \<open>kernel\<close>.
\<close>

subsection \<open>Byte order and constants\<close>

text \<open>
  The module runs on x86 hosts: \<open>htons\<close> and \<open>ntohs\<close> swap the two bytes of a 16-bit
  value.
\<close>

definition htons :: "16 word \<Rightarrow> 16 word" where
  "htons x = push_bit 8 x OR drop_bit 8 x"

definition ntohs :: "16 word \<Rightarrow> 16 word" where
  "ntohs x = push_bit 8 x OR drop_bit 8 x"

definition IP_MF :: "16 word" where
  "IP_MF = 0x2000"

definition IP_OFFSET :: "16 word" where
  "IP_OFFSET = 0x1FFF"

definition ETH_HLEN :: nat where
  "ETH_HLEN = 14"

definition ETH_P_IP :: "16 word" where
  "ETH_P_IP = 0x0800"

definition IPPROTO_TCP :: "8 word" where
  "IPPROTO_TCP = 6"

definition IPPROTO_UDP :: "8 word" where
  "IPPROTO_UDP = 17"

definition VR_IP_PROTO_GRE :: "8 word" where
  "VR_IP_PROTO_GRE = 47"

definition ENOMEM :: int where
  "ENOMEM = 12"

text \<open>\<open>sizeof(struct vr_ip)\<close>, \<open>sizeof(struct udphdr)\<close> and \<open>offsetof(struct udphdr, check)\<close>.\<close>

definition sizeof_vr_ip :: nat where
  "sizeof_vr_ip = 20"

definition sizeof_udphdr :: nat where
  "sizeof_udphdr = 8"

definition offsetof_udphdr_check :: "16 word" where
  "offsetof_udphdr_check = 6"

subsection \<open>Headers, devices and socket buffers\<close>

text \<open>
  The IPv4 header. \<open>struct iphdr\<close> of the kernel and \<open>struct vr_ip\<close> of the module are
  two names for one layout (\<open>ihl\<close> is \<open>ip_hl\<close>, \<open>tot_len\<close> is \<open>ip_len\<close>, \<open>id\<close> is
  \<open>ip_id\<close>, \<open>frag_off\<close> is \<open>ip_frag_off\<close>, \<open>protocol\<close> is \<open>ip_proto\<close>, \<open>check\<close> is
  \<open>ip_csum\<close>). Multi-byte fields hold what is in memory, that is network byte order.
\<close>

record vr_ip =
  ip_hl :: "4 word"
  ip_len :: "16 word"
  ip_id :: "16 word"
  ip_frag_off :: "16 word"
  ip_proto :: "8 word"
  ip_csum :: "16 word"
  ip_saddr :: "32 word"
  ip_daddr :: "32 word"

record udphdr =
  uh_len :: "16 word"
  uh_check :: "16 word"

record tcphdr =
  th_doff :: "4 word"

record net_device =
  dev_mtu :: "32 word"
  dev_hard_header_len :: "16 word"

datatype ip_summed_t = CHECKSUM_NONE | CHECKSUM_UNNECESSARY | CHECKSUM_COMPLETE | CHECKSUM_PARTIAL

text \<open>
  \<open>struct sk_buff\<close>: \<open>skb_data\<close>, \<open>skb_tail\<close>, \<open>skb_end\<close> and the three header positions
  are offsets from \<open>skb->head\<close>; \<open>skb_gso_size\<close> is \<open>skb_shinfo(skb)->gso_size\<close>. The
  stores \<open>skb_ip_at\<close>, \<open>skb_udp_at\<close> and \<open>skb_tcp_at\<close> give the header that starts at an
  offset from the head.
\<close>

record sk_buff =
  skb_len :: "32 word"
  skb_data_len :: "32 word"
  skb_mac_len :: "16 word"
  skb_protocol :: "16 word"
  skb_ip_summed :: ip_summed_t
  skb_csum_start :: "16 word"
  skb_csum_offset :: "16 word"
  skb_rxhash :: "32 word"
  skb_gso_size :: "16 word"
  skb_dev :: net_device
  skb_data :: "32 word"
  skb_tail :: "32 word"
  skb_end :: "32 word"
  skb_mac_header :: "32 word"
  skb_network_header :: "32 word"
  skb_transport_header :: "32 word"
  skb_ip_at :: "32 word \<Rightarrow> vr_ip"
  skb_udp_at :: "32 word \<Rightarrow> udphdr"
  skb_tcp_at :: "32 word \<Rightarrow> tcphdr"

definition ip_hdr :: "sk_buff \<Rightarrow> vr_ip" where
  "ip_hdr skb = skb_ip_at skb (skb_network_header skb)"

definition set_ip_at :: "sk_buff \<Rightarrow> 32 word \<Rightarrow> vr_ip \<Rightarrow> sk_buff" where
  "set_ip_at skb off h = skb\<lparr>skb_ip_at := (skb_ip_at skb)(off := h)\<rparr>"

definition tcp_hdr :: "sk_buff \<Rightarrow> tcphdr" where
  "tcp_hdr skb = skb_tcp_at skb (skb_transport_header skb)"

definition skb_network_header_len :: "sk_buff \<Rightarrow> 32 word" where
  "skb_network_header_len skb = skb_transport_header skb - skb_network_header skb"

definition skb_transport_offset :: "sk_buff \<Rightarrow> 32 word" where
  "skb_transport_offset skb = skb_transport_header skb - skb_data skb"

definition skb_headlen :: "sk_buff \<Rightarrow> 32 word" where
  "skb_headlen skb = skb_len skb - skb_data_len skb"

definition vr_skb_set_rxhash :: "sk_buff \<Rightarrow> 32 word \<Rightarrow> sk_buff" where
  "vr_skb_set_rxhash skb val = skb\<lparr>skb_rxhash := val\<rparr>"

datatype vif_type_t = VIF_TYPE_HOST | VIF_TYPE_AGENT | VIF_TYPE_PHYSICAL | VIF_TYPE_VIRTUAL

text \<open>
  \<open>struct vr_interface\<close>, with the state of its NAPI context: the input queue
  \<open>vr_skb_inputq\<close> (head first), the buffers handed to \<open>napi_gro_receive\<close> so far (oldest
  first) and whether \<open>napi_complete\<close> was called.
\<close>

record vr_interface =
  vif_type :: vif_type_t
  vif_os :: "net_device option"
  vr_skb_inputq :: "sk_buff list"
  napi_gro_received :: "sk_buff list"
  napi_completed :: bool

subsection \<open>The NAPI poll routine\<close>

text \<open>
  The \<open>while\<close> loop of \<open>vr_napi_poll\<close>: \<open>skb_dequeue\<close> takes the head of the queue, the
  loop leaves when the queue is empty or when \<open>quota\<close> reaches \<open>budget\<close>. The result is
  \<open>quota\<close>, the queue left and the buffers received. \<open>quota\<close> counts dequeued buffers,
  which are fewer than \<open>2^31\<close>, so the C \<open>int\<close> is an unbounded \<open>int\<close> here.
\<close>

fun vr_napi_poll_loop ::
  "int \<Rightarrow> int \<Rightarrow> sk_buff list \<Rightarrow> sk_buff list \<Rightarrow> int \<times> sk_buff list \<times> sk_buff list" where
  "vr_napi_poll_loop budget quota [] received = (quota, [], received)"
| "vr_napi_poll_loop budget quota (skb # inputq) received =
     (let received' = received @ [vr_skb_set_rxhash skb 0];
          quota' = quota + 1
      in if quota' = budget then (quota', inputq, received')
         else vr_napi_poll_loop budget quota' inputq received')"

definition vr_napi_poll :: "vr_interface \<Rightarrow> int \<Rightarrow> int \<times> vr_interface" where
  "vr_napi_poll vif budget =
     (case vr_napi_poll_loop budget 0 (vr_skb_inputq vif) (napi_gro_received vif) of
        (quota, inputq, received) \<Rightarrow>
          (let vif' = vif\<lparr>vr_skb_inputq := inputq, napi_gro_received := received\<rparr>
           in if quota \<noteq> budget then (0, vif'\<lparr>napi_completed := True\<rparr>)
              else (budget, vif')))"

subsection \<open>From a socket buffer to a packet\<close>

text \<open>
  \<open>struct vr_packet\<close> is declared in a header of the module that is not among the
  sources at hand, so the types of the three offset fields are a parameter: each is an
  unsigned type narrower than \<open>int\<close>, for which \<open>1 << (sizeof(field) * 8)\<close> is a defined
  \<open>int\<close>. A field holds the value assigned to it, cut to the width of its type.
\<close>

datatype c_field_t = Unsigned_char | Unsigned_short

fun sizeof :: "c_field_t \<Rightarrow> nat" where
  "sizeof Unsigned_char = 1"
| "sizeof Unsigned_short = 2"

definition store_field :: "c_field_t \<Rightarrow> 32 word \<Rightarrow> nat" where
  "store_field t v = unat v mod 2 ^ (sizeof t * 8)"

record vr_packet_layout =
  vp_tail_t :: c_field_t
  vp_data_t :: c_field_t
  vp_end_t :: c_field_t
  vp_len_t :: c_field_t

datatype vp_type_t = VP_TYPE_NULL | VP_TYPE_ARP | VP_TYPE_IP | VP_TYPE_IP6 | VP_TYPE_IPOIP

datatype vp_flag = VP_FLAG_FROM_DP | VP_FLAG_CSUM_PARTIAL | VP_FLAG_GSO | VP_FLAG_GRO
  | VP_FLAG_FLOW_SET

datatype drop_reason = VP_DROP_INVALID_PACKET | VP_DROP_MISC | VP_DROP_INVALID_LABEL
  | VP_DROP_INVALID_NH

record vr_packet =
  vp_cpu :: nat
  vp_tail :: nat
  vp_data :: nat
  vp_end :: nat
  vp_len :: nat
  vp_if :: vr_interface
  vp_network_h :: nat
  vp_inner_network_h :: nat
  vp_nh :: "nat option"
  vp_flags :: "vp_flag set"
  vp_type :: vp_type_t

text \<open>
  \<open>linux_get_packet\<close>: \<open>Inl reason\<close> is the path through \<open>drop:\<close>, where the packet is
  freed by \<open>vr_pfree(pkt, reason)\<close> and \<open>NULL\<close> is returned; \<open>Inr pkt\<close> is the packet
  returned. \<open>cpu\<close> is the value of \<open>vr_get_cpu()\<close>.
\<close>

definition linux_get_packet ::
  "vr_packet_layout \<Rightarrow> nat \<Rightarrow> sk_buff \<Rightarrow> vr_interface \<Rightarrow> drop_reason + vr_packet" where
  "linux_get_packet L cpu skb vif =
     (let length1 = skb_tail skb in
      if 2 ^ (sizeof (vp_tail_t L) * 8) \<le> unat length1 then Inl VP_DROP_INVALID_PACKET
      else
        let length2 = skb_data skb in
        if 2 ^ (sizeof (vp_data_t L) * 8) \<le> unat length2 then Inl VP_DROP_INVALID_PACKET
        else
          let length3 = skb_end skb in
          if 2 ^ (sizeof (vp_end_t L) * 8) \<le> unat length3 then Inl VP_DROP_INVALID_PACKET
          else Inr \<lparr>vp_cpu = cpu,
                    vp_tail = store_field (vp_tail_t L) length1,
                    vp_data = store_field (vp_data_t L) length2,
                    vp_end = store_field (vp_end_t L) length3,
                    vp_len = store_field (vp_len_t L) (skb_headlen skb),
                    vp_if = vif,
                    vp_network_h = 0,
                    vp_inner_network_h = 0,
                    vp_nh = None,
                    vp_flags = (if skb_ip_summed skb = CHECKSUM_PARTIAL
                                then {VP_FLAG_CSUM_PARTIAL} else {}),
                    vp_type = VP_TYPE_NULL\<rparr>)"

subsection \<open>Choosing the receive queue\<close>

text \<open>
  The CPU topology the kernel reports: the number of possible CPUs, the NUMA node of a
  CPU, the CPUs of a node and the hyper-thread siblings of a CPU. A \<open>struct cpumask\<close> is
  its membership test; \<open>for_each_cpu\<close> visits the members below \<open>nr_cpu_ids\<close> in
  ascending order and \<open>cpumask_weight\<close> counts them.
\<close>

type_synonym cpumask = "nat \<Rightarrow> bool"

record topology =
  nr_cpu_ids :: nat
  cpu_to_node :: "nat \<Rightarrow> int"
  cpumask_of_node :: "int \<Rightarrow> cpumask"
  cpu_sibling_mask :: "nat \<Rightarrow> cpumask"

definition cpumask_andnot :: "cpumask \<Rightarrow> cpumask \<Rightarrow> cpumask" where
  "cpumask_andnot src1 src2 = (\<lambda>cpu. src1 cpu \<and> \<not> src2 cpu)"

definition for_each_cpu :: "topology \<Rightarrow> cpumask \<Rightarrow> nat list" where
  "for_each_cpu T msk = filter msk [0..<nr_cpu_ids T]"

definition cpumask_weight :: "topology \<Rightarrow> cpumask \<Rightarrow> nat" where
  "cpumask_weight T msk = length (for_each_cpu T msk)"

text \<open>
  The \<open>for_each_cpu\<close> loop of \<open>linux_get_rxq\<close> over the CPUs still to visit: \<open>Some cpu\<close>
  when it leaves by \<open>break\<close>, \<open>None\<close> when it runs off the mask (then \<open>cpu >= nr_cpu_ids\<close>).
\<close>

fun linux_get_rxq_loop :: "nat list \<Rightarrow> 32 word \<Rightarrow> 32 word \<Rightarrow> nat option" where
  "linux_get_rxq_loop [] count next_cpu = None"
| "linux_get_rxq_loop (cpu # cpus) count next_cpu =
     (if count = next_cpu then Some cpu else linux_get_rxq_loop cpus (count + 1) next_cpu)"

text \<open>
  \<open>linux_get_rxq\<close>; the result is the value stored in \<open>*rxq\<close>, a \<open>u16\<close>. \<open>rxhash\<close> is
  \<open>skb_get_rxhash(skb)\<close>. \<open>prev_cpu\<close> is 0 when no previous CPU is given and the previous
  CPU plus one otherwise, as the callers pass it.
\<close>

definition linux_get_rxq :: "topology \<Rightarrow> 32 word \<Rightarrow> 32 word \<Rightarrow> 32 word \<Rightarrow> 16 word" where
  "linux_get_rxq T rxhash curr_cpu prev_cpu =
     (let numa_node = cpu_to_node T (unat curr_cpu);
          node_cpumask = cpumask_of_node T numa_node;
          noht_cpumask = cpumask_andnot node_cpumask (cpu_sibling_mask T (unat curr_cpu));
          noht_cpumask' =
            (if prev_cpu \<noteq> 0 \<and> unat prev_cpu \<le> nr_cpu_ids T
             then cpumask_andnot noht_cpumask (cpu_sibling_mask T (unat (prev_cpu - 1)))
             else noht_cpumask);
          num_cpus = (of_nat (cpumask_weight T noht_cpumask') :: 32 word)
      in if num_cpus \<noteq> 0
         then
           let next_cpu =
                 (ucast (drop_bit 32 ((ucast rxhash :: 64 word) * ucast num_cpus)) :: 32 word)
           in (case linux_get_rxq_loop (for_each_cpu T noht_cpumask') 0 next_cpu of
                 None \<Rightarrow> ucast curr_cpu
               | Some cpu \<Rightarrow> of_nat cpu)
         else ucast curr_cpu)"

text \<open>
  The selector as the specification words it: the candidates are the cores of the NUMA
  node of the current core, without the hyper-thread siblings of the current core and of
  the previous core when one is given, in ascending order.
\<close>

definition candidate_cores :: "topology \<Rightarrow> nat \<Rightarrow> nat option \<Rightarrow> nat list" where
  "candidate_cores T current_core previous_core =
     filter (\<lambda>c. cpumask_of_node T (cpu_to_node T current_core) c
                 \<and> \<not> cpu_sibling_mask T current_core c
                 \<and> (case previous_core of None \<Rightarrow> True
                     | Some p \<Rightarrow> \<not> cpu_sibling_mask T p c))
       [0..<nr_cpu_ids T]"

definition select_core :: "topology \<Rightarrow> nat \<Rightarrow> nat \<Rightarrow> nat option \<Rightarrow> nat" where
  "select_core T flow_hash current_core previous_core =
     (let candidates = candidate_cores T current_core previous_core
      in if candidates \<noteq> []
         then candidates ! (flow_hash * length candidates div 2 ^ 32)
         else current_core)"

definition prev_cpu_arg :: "nat option \<Rightarrow> 32 word" where
  "prev_cpu_arg previous_core = (case previous_core of None \<Rightarrow> 0 | Some p \<Rightarrow> of_nat p + 1)"

text \<open>
  A fixture: one NUMA node of eight CPUs, where CPU \<open>c\<close> and CPU \<open>c + 4\<close> are
  hyper-threads of one core.
\<close>

definition topo8 :: topology where
  "topo8 = \<lparr>nr_cpu_ids = 8, cpu_to_node = (\<lambda>_. 0), cpumask_of_node = (\<lambda>_ c. c < 8),
            cpu_sibling_mask = (\<lambda>a c. c mod 4 = a mod 4 \<and> c < 8)\<rparr>"

subsection \<open>The transmit path: collaborators, events and results\<close>

text \<open>
  The kernel primitives of the transmit path. \<open>dev_queue_xmit\<close> gives the return code
  of the device layer for a buffer (the buffer is consumed whatever the code);
  \<open>pskb_may_pull\<close> tells whether that many bytes can be made linear;
  \<open>skb_checksum_help\<close> returns its error code and the buffer with the checksum filled
  in; \<open>skb_segment\<close> and \<open>skb_gso_segment\<close> return \<open>Inl err\<close> for \<open>ERR_PTR(err)\<close> and
  \<open>Inr segs\<close> for the list linked through \<open>next\<close> (\<open>Inr []\<close> is \<open>NULL\<close>);
  \<open>gso_feature_bits\<close> is \<open>NETIF_F_ALL_TSO | NETIF_F_UFO | NETIF_F_GSO\<close>.
  \<open>unique_ip_ids\<close> is the sequence of values \<open>vr_generate_unique_ip_id()\<close> returns,
  call after call.
\<close>

record kernel =
  dev_queue_xmit :: "sk_buff \<Rightarrow> int"
  pskb_may_pull :: "sk_buff \<Rightarrow> nat \<Rightarrow> bool"
  skb_checksum_help :: "sk_buff \<Rightarrow> int \<times> sk_buff"
  netif_skb_features :: "sk_buff \<Rightarrow> 64 word"
  gso_feature_bits :: "64 word"
  skb_segment :: "sk_buff \<Rightarrow> 64 word \<Rightarrow> int + sk_buff list"
  skb_gso_segment :: "sk_buff \<Rightarrow> 64 word \<Rightarrow> int + sk_buff list"
  ip_fast_csum :: "vr_ip \<Rightarrow> 16 word"
  csum_tcpudp_magic :: "32 word \<Rightarrow> 32 word \<Rightarrow> 16 word \<Rightarrow> 8 word \<Rightarrow> 32 word \<Rightarrow> 16 word"
  unique_ip_ids :: "nat \<Rightarrow> 16 word"

text \<open>
  What the transmit path does to the world: the buffers handed to \<open>dev_queue_xmit\<close> and
  the buffers freed by \<open>kfree_skb\<close>, in the order of the calls, and the number of
  identifiers drawn from the generator.
\<close>

datatype event = Dev_queue_xmit sk_buff | Kfree_skb sk_buff

record tx_state =
  tx_events :: "event list"
  ip_ids_drawn :: nat

text \<open>
  A call either returns its C return value with the new state, or does not return:
  it divides by zero, follows a \<open>NULL\<close> pointer, or needs more nested calls than the
  fuel allows.
\<close>

datatype fault = Division_by_zero | Null_dereference | Out_of_fuel

type_synonym tx_result = "fault + (int \<times> tx_state)"

definition kfree_skb :: "sk_buff \<Rightarrow> tx_state \<Rightarrow> tx_state" where
  "kfree_skb skb st = st\<lparr>tx_events := tx_events st @ [Kfree_skb skb]\<rparr>"

text \<open>
  Modelled from the spec: \<open>vr_generate_unique_ip_id\<close> is defined in a part of the module
  that is not among the sources at hand; the specification calls it a process-wide
  generator of fresh IP identifiers. A call takes the next value of the sequence.
\<close>

definition vr_generate_unique_ip_id :: "kernel \<Rightarrow> tx_state \<Rightarrow> 16 word \<times> tx_state" where
  "vr_generate_unique_ip_id K st =
     (unique_ip_ids K (ip_ids_drawn st), st\<lparr>ip_ids_drawn := Suc (ip_ids_drawn st)\<rparr>)"

definition skb_pull :: "sk_buff \<Rightarrow> 32 word \<Rightarrow> sk_buff" where
  "skb_pull skb len =
     (if skb_len skb < len then skb
      else skb\<lparr>skb_len := skb_len skb - len, skb_data := skb_data skb + len\<rparr>)"

text \<open>
  \<open>skb_partial_csum_set(skb, start, off)\<close> of the kernel, with its two \<open>u16\<close>
  arguments: \<open>None\<close> is \<open>false\<close>; otherwise it marks the checksum as partial and
  records where it starts (\<open>skb_headroom\<close> is the offset of \<open>data\<close>) and where it is
  stored.
\<close>

definition skb_partial_csum_set :: "sk_buff \<Rightarrow> 16 word \<Rightarrow> 16 word \<Rightarrow> sk_buff option" where
  "skb_partial_csum_set skb start off =
     (if skb_headlen skb < ucast start \<or> skb_headlen skb - 2 < ucast start + ucast off
      then None
      else Some (skb\<lparr>skb_ip_summed := CHECKSUM_PARTIAL,
                     skb_csum_start := ucast (skb_data skb) + start,
                     skb_csum_offset := off\<rparr>))"

subsection \<open>The egress tunnel finalizer\<close>

text \<open>
  \<open>linux_xmit_segment\<close>. Its callee \<open>linux_xmit\<close> is the argument \<open>xmit\<close>; the recursion
  through \<open>linux_inet_fragment\<close> is closed in \<open>linux_xmit\<close> below. The test on the
  length is the source's, in \<open>unsigned int\<close>. \<open>linux_xmit_segment_fixup\<close> is the part
  after the first \<open>return\<close>: \<open>Inl\<close> is the exit through \<open>exit_xmit\<close> (with the segment as
  it is freed), \<open>Inr\<close> the segment and state handed to \<open>linux_xmit\<close>.
\<close>

definition VR_IP_PROTO_UDP :: "8 word" where
  "VR_IP_PROTO_UDP = 17"

definition linux_xmit_segment_fixup ::
  "kernel \<Rightarrow> sk_buff \<Rightarrow> tx_state \<Rightarrow> (sk_buff \<times> tx_state) + (sk_buff \<times> tx_state)" where
  "linux_xmit_segment_fixup K seg st =
     (if \<not> pskb_may_pull K seg (ETH_HLEN + sizeof_vr_ip) then Inl (seg, st)
      else
        let iph = skb_data seg + of_nat ETH_HLEN;
            iphlen = (push_bit 2 (ucast (ip_hl (skb_ip_at seg iph))) :: 16 word);
            seg1 = set_ip_at seg iph
                     ((skb_ip_at seg iph)\<lparr>ip_len := htons (ucast (skb_len seg - of_nat ETH_HLEN))\<rparr>);
            (id, st1) = vr_generate_unique_ip_id K st;
            seg2 = set_ip_at seg1 iph ((skb_ip_at seg1 iph)\<lparr>ip_id := htons id\<rparr>)
        in if \<not> pskb_may_pull K seg2 (ETH_HLEN + unat iphlen) then Inl (seg2, st1)
           else if ip_proto (skb_ip_at seg2 iph) = VR_IP_PROTO_UDP then
             let seg3 = seg2\<lparr>skb_network_header := skb_data seg2 + of_nat ETH_HLEN\<rparr>;
                 seg4 = set_ip_at seg3 iph ((skb_ip_at seg3 iph)\<lparr>ip_csum := 0\<rparr>)
             in if \<not> pskb_may_pull K seg4 (ETH_HLEN + unat iphlen + sizeof_udphdr)
                then Inl (seg4, st1)
                else
                  let seg5 = seg4\<lparr>skb_transport_header :=
                                     skb_data seg4 + (ucast iphlen + of_nat ETH_HLEN)\<rparr>
                  in (case skb_partial_csum_set seg5 (ucast (skb_transport_offset seg5))
                            offsetof_udphdr_check of
                        None \<Rightarrow> Inl (seg5, st1)
                      | Some seg6 \<Rightarrow>
                          let udph = skb_transport_header seg6;
                              seg7 = seg6\<lparr>skb_udp_at := (skb_udp_at seg6)
                                       (udph := (skb_udp_at seg6 udph)
                                          \<lparr>uh_len := htons (ucast (skb_len seg6
                                                       - skb_transport_offset seg6))\<rparr>)\<rparr>;
                              seg8 = set_ip_at seg7 iph
                                       ((skb_ip_at seg7 iph)
                                          \<lparr>ip_csum := ip_fast_csum K (skb_ip_at seg7 iph)\<rparr>);
                              seg9 = seg8\<lparr>skb_udp_at := (skb_udp_at seg8)
                                       (udph := (skb_udp_at seg8 udph)
                                          \<lparr>uh_check := NOT (csum_tcpudp_magic K
                                              (ip_saddr (skb_ip_at seg8 iph))
                                              (ip_daddr (skb_ip_at seg8 iph))
                                              (htons (uh_len (skb_udp_at seg8 udph)))
                                              IPPROTO_UDP 0)\<rparr>)\<rparr>
                          in Inr (seg9, st1))
           else if ip_proto (skb_ip_at seg2 iph) = VR_IP_PROTO_GRE then
             let seg3 = set_ip_at seg2 iph ((skb_ip_at seg2 iph)\<lparr>ip_csum := 0\<rparr>);
                 seg4 = set_ip_at seg3 iph
                          ((skb_ip_at seg3 iph)\<lparr>ip_csum := ip_fast_csum K (skb_ip_at seg3 iph)\<rparr>)
             in Inr (seg4, st1)
           else Inr (seg2, st1))"

definition linux_xmit_segment ::
  "kernel \<Rightarrow> (vr_interface \<Rightarrow> sk_buff \<Rightarrow> vp_type_t \<Rightarrow> tx_state \<Rightarrow> tx_result) \<Rightarrow>
   vr_interface \<Rightarrow> sk_buff \<Rightarrow> vp_type_t \<Rightarrow> tx_state \<Rightarrow> tx_result" where
  "linux_xmit_segment K xmit vif seg type st =
     (if dev_mtu (skb_dev seg) + ucast (dev_hard_header_len (skb_dev seg)) < skb_len seg
         \<or> type \<noteq> VP_TYPE_IPOIP
      then xmit vif seg type st
      else (case linux_xmit_segment_fixup K seg st of
              Inl (seg', st') \<Rightarrow> Inr (- ENOMEM, kfree_skb seg' st')
            | Inr (seg', st') \<Rightarrow> xmit vif seg' type st'))"

subsection \<open>Transmitting a list of segments\<close>

text \<open>The second loop of \<open>linux_xmit_segments\<close>: free what is left of the list.\<close>

fun linux_xmit_segments_free :: "sk_buff list \<Rightarrow> tx_state \<Rightarrow> tx_state" where
  "linux_xmit_segments_free [] st = st"
| "linux_xmit_segments_free (segs # nskb) st = linux_xmit_segments_free nskb (kfree_skb segs st)"

text \<open>
  \<open>linux_xmit_segments\<close>: the \<open>do\<close> loop reads \<open>segs->next\<close> before it tests anything,
  so an empty list is a \<open>NULL\<close> dereference. After the loop \<open>nskb\<close> is the rest of the
  list behind the segment that failed, or \<open>NULL\<close> when none failed.
\<close>

fun linux_xmit_segments ::
  "kernel \<Rightarrow> (vr_interface \<Rightarrow> sk_buff \<Rightarrow> vp_type_t \<Rightarrow> tx_state \<Rightarrow> tx_result) \<Rightarrow>
   vr_interface \<Rightarrow> sk_buff list \<Rightarrow> vp_type_t \<Rightarrow> tx_state \<Rightarrow> tx_result" where
  "linux_xmit_segments K xmit vif [] type st = Inl Null_dereference"
| "linux_xmit_segments K xmit vif (segs # nskb) type st =
     (case linux_xmit_segment K xmit vif segs type st of
        Inl f \<Rightarrow> Inl f
      | Inr (err, st') \<Rightarrow>
          if err \<noteq> 0 then Inr (err, linux_xmit_segments_free nskb st')
          else if nskb = [] then Inr (err, st')
          else linux_xmit_segments K xmit vif nskb type st')"

subsection \<open>The egress fragmenter\<close>

text \<open>
  The fragment size of \<open>linux_inet_fragment\<close>: \<open>frag_size\<close> comes in as
  \<open>mtu - mac_len - ip_hlen\<close>. \<open>None\<close> is a division by zero.
\<close>

definition linux_inet_fragment_size :: "32 word \<Rightarrow> 32 word \<Rightarrow> 32 word option" where
  "linux_inet_fragment_size payload_size frag_size =
     (let frag_size1 = frag_size AND NOT 7
      in if frag_size1 = 0 then None
         else
           let num_frags = payload_size div frag_size1;
               last_frag_len = payload_size mod frag_size1
           in if last_frag_len \<noteq> 0 \<and> last_frag_len < 64
              then (if num_frags = 0 then None
                    else Some ((frag_size1 - (64 - last_frag_len) div num_frags - 1) AND NOT 7))
              else Some frag_size1)"

text \<open>
  The body of the \<open>do\<close> loop of \<open>linux_inet_fragment\<close> for one segment: it writes the
  identifier, the fragment offset and flag, the total length and the checksum into the
  IP header of the segment. \<open>mf\<close> is the value of \<open>skb->next != NULL || fragmented\<close>.
\<close>

definition linux_inet_fragment_stamp ::
  "kernel \<Rightarrow> 16 word \<Rightarrow> bool \<Rightarrow> 32 word \<Rightarrow> sk_buff \<Rightarrow> sk_buff" where
  "linux_inet_fragment_stamp K ip_id' mf offset skb =
     (let ip = skb_network_header skb;
          skb1 = set_ip_at skb ip ((skb_ip_at skb ip)\<lparr>ip_id := htons ip_id'\<rparr>);
          skb2 = set_ip_at skb1 ip
                   ((skb_ip_at skb1 ip)\<lparr>ip_frag_off := htons (ucast (drop_bit 3 offset))\<rparr>);
          skb3 = (if mf
                  then set_ip_at skb2 ip
                         ((skb_ip_at skb2 ip)
                            \<lparr>ip_frag_off := ip_frag_off (skb_ip_at skb2 ip) OR htons IP_MF\<rparr>)
                  else skb2);
          skb4 = set_ip_at skb3 ip
                   ((skb_ip_at skb3 ip)
                      \<lparr>ip_len := htons (ucast (skb_len skb3 - ucast (skb_mac_len skb3)))\<rparr>);
          skb5 = set_ip_at skb4 ip ((skb_ip_at skb4 ip)\<lparr>ip_csum := 0\<rparr>);
          skb6 = set_ip_at skb5 ip
                   ((skb_ip_at skb5 ip)\<lparr>ip_csum := ip_fast_csum K (skb_ip_at skb5 ip)\<rparr>)
      in skb6)"

text \<open>
  What the loop adds to \<open>offset\<close> for a segment: \<open>skb->len - skb->mac_len - ip->ihl * 4\<close>
  (the writes before it leave these three fields alone).
\<close>

definition linux_inet_fragment_advance :: "sk_buff \<Rightarrow> 32 word" where
  "linux_inet_fragment_advance skb =
     skb_len skb - ucast (skb_mac_len skb) - ucast (ip_hl (ip_hdr skb)) * 4"

text \<open>The \<open>do\<close> loop itself, over the list of segments.\<close>

fun linux_inet_fragment_loop ::
  "kernel \<Rightarrow> 16 word \<Rightarrow> bool \<Rightarrow> 32 word \<Rightarrow> sk_buff list \<Rightarrow> sk_buff list" where
  "linux_inet_fragment_loop K ip_id' fragmented offset [] = []"
| "linux_inet_fragment_loop K ip_id' fragmented offset (skb # rest) =
     linux_inet_fragment_stamp K ip_id' (rest \<noteq> [] \<or> fragmented) offset skb
       # linux_inet_fragment_loop K ip_id' fragmented
           (offset + linux_inet_fragment_advance skb) rest"

definition linux_inet_fragment ::
  "kernel \<Rightarrow> (vr_interface \<Rightarrow> sk_buff \<Rightarrow> vp_type_t \<Rightarrow> tx_state \<Rightarrow> tx_result) \<Rightarrow>
   vr_interface \<Rightarrow> sk_buff \<Rightarrow> vp_type_t \<Rightarrow> tx_state \<Rightarrow> tx_result" where
  "linux_inet_fragment K xmit vif skb type st =
     (let ip = ip_hdr skb;
          ip_hlen = (ucast (ip_hl ip) * 4 :: 32 word);
          fragmented = (ntohs (ip_frag_off ip) AND IP_MF \<noteq> 0);
          offset = (push_bit 3 (ucast (ntohs (ip_frag_off ip) AND IP_OFFSET)) :: 32 word);
          ip_id' = ntohs (ip_id ip);
          payload_size = skb_len skb - ucast (skb_mac_len skb) - ip_hlen;
          frag_size = dev_mtu (skb_dev skb) - ucast (skb_mac_len skb) - ip_hlen;
          features = netif_skb_features K skb AND NOT (gso_feature_bits K)
      in case linux_inet_fragment_size payload_size frag_size of
           None \<Rightarrow> Inl Division_by_zero
         | Some frag_size' \<Rightarrow>
             let skb1 = skb\<lparr>skb_gso_size := 0\<rparr>;
                 (rc, skb2) = (if skb_ip_summed skb1 = CHECKSUM_PARTIAL
                               then skb_checksum_help K skb1 else (0, skb1))
             in if rc \<noteq> 0 then Inr (0, kfree_skb skb2 st)
                else
                  let skb3 = skb2\<lparr>skb_gso_size := ucast frag_size'\<rparr>;
                      skb4 = skb_pull skb3 (ucast (skb_mac_len skb3) + ip_hlen)
                  in (case skb_segment K skb4 features of
                        Inl err \<Rightarrow> Inr (err, st)
                      | Inr [] \<Rightarrow> Inl Null_dereference
                      | Inr (seg # segs) \<Rightarrow>
                          linux_xmit_segments K xmit vif
                            (linux_inet_fragment_loop K ip_id' fragmented offset (seg # segs))
                            type (kfree_skb skb4 st)))"

text \<open>
  \<open>linux_xmit\<close>. The first argument bounds the depth of the calls of \<open>linux_xmit\<close>
  nested through \<open>linux_inet_fragment\<close>, \<open>linux_xmit_segments\<close> and
  \<open>linux_xmit_segment\<close>.
\<close>

primrec linux_xmit ::
  "nat \<Rightarrow> kernel \<Rightarrow> vr_interface \<Rightarrow> sk_buff \<Rightarrow> vp_type_t \<Rightarrow> tx_state \<Rightarrow> tx_result" where
  "linux_xmit 0 K vif skb type st = Inl Out_of_fuel"
| "linux_xmit (Suc n) K vif skb type st =
     (let proto = ntohs (skb_protocol skb)
      in if vif_type vif \<noteq> VIF_TYPE_PHYSICAL
            \<or> skb_len skb \<le> dev_mtu (skb_dev skb) + ucast (dev_hard_header_len (skb_dev skb))
         then Inr (dev_queue_xmit K skb, st\<lparr>tx_events := tx_events st @ [Dev_queue_xmit skb]\<rparr>)
         else if proto = ETH_P_IP then linux_inet_fragment K (linux_xmit n K) vif skb type st
         else Inr (- ENOMEM, kfree_skb skb st))"

subsection \<open>The GSO tunnel dispatcher\<close>

text \<open>
  \<open>seg_size\<close> of \<open>linux_gso_xmit\<close>, an \<open>unsigned short\<close>, after the two additions, and
  the \<open>gso_size\<close> the function leaves in the buffer before it calls \<open>skb_gso_segment\<close>.
\<close>

definition linux_gso_xmit_seg_size :: "sk_buff \<Rightarrow> 16 word" where
  "linux_gso_xmit_seg_size skb =
     (let seg_size = skb_gso_size skb;
          seg_size1 = seg_size + ucast (ucast (skb_mac_len skb) + skb_network_header_len skb);
          seg_size2 = (if ip_proto (ip_hdr skb) = IPPROTO_TCP
                       then seg_size1 + ucast (th_doff (tcp_hdr skb)) * 4
                       else seg_size1)
      in seg_size2)"

definition linux_gso_xmit_gso_size :: "net_device \<Rightarrow> sk_buff \<Rightarrow> 16 word" where
  "linux_gso_xmit_gso_size ndev skb =
     (let seg_size = (ucast (linux_gso_xmit_seg_size skb) :: 32 word)
      in if dev_mtu ndev + ucast (dev_hard_header_len ndev) < seg_size
         then
           let gso_size = skb_gso_size skb
                 - ucast (seg_size - dev_mtu ndev - ucast (dev_hard_header_len ndev))
           in if ip_proto (ip_hdr skb) = IPPROTO_UDP then gso_size AND NOT 7 else gso_size
         else skb_gso_size skb)"

definition linux_gso_xmit ::
  "kernel \<Rightarrow> (vr_interface \<Rightarrow> sk_buff \<Rightarrow> vp_type_t \<Rightarrow> tx_state \<Rightarrow> tx_result) \<Rightarrow>
   vr_interface \<Rightarrow> sk_buff \<Rightarrow> vp_type_t \<Rightarrow> tx_state \<Rightarrow> fault + tx_state" where
  "linux_gso_xmit K xmit vif skb type st =
     (case vif_os vif of
        None \<Rightarrow> Inl Null_dereference
      | Some ndev \<Rightarrow>
          let features = netif_skb_features K skb AND NOT (gso_feature_bits K);
              skb1 = skb\<lparr>skb_gso_size := linux_gso_xmit_gso_size ndev skb\<rparr>;
              st1 = kfree_skb skb1 st
          in (case skb_gso_segment K skb1 features of
                Inl err \<Rightarrow> Inr st1
              | Inr [] \<Rightarrow> Inr st1
              | Inr (seg # segs) \<Rightarrow>
                  (case linux_xmit_segments K xmit vif (seg # segs) type st1 of
                     Inl f \<Rightarrow> Inl f
                   | Inr (err, st2) \<Rightarrow> Inr st2)))"

subsection \<open>Generic segmentation\<close>

text \<open>
  Modelled from the spec: generic segmentation at a size splits the payload into
  consecutive pieces of that size, the last piece holding what is left, so that the
  lengths add up to the payload length. \<open>skb_segment\<close> is the kernel's; this is the list
  of the payload lengths of the segments it returns.
\<close>

definition segment_lengths :: "nat \<Rightarrow> nat \<Rightarrow> nat list" where
  "segment_lengths payload sz =
     replicate (payload div sz) sz @ (if payload mod sz = 0 then [] else [payload mod sz])"

subsection \<open>Segments sent in order\<close>

text \<open>
  The specification's reading of a batch: the segments of a list are handed to
  \<open>linux_xmit_segment\<close> one after the other, each on the state the one before left, as
  long as each returns 0. \<open>Some\<close> is the state after the last of them; \<open>None\<close> when one
  of them fails or does not return.
\<close>

fun segments_sent ::
  "kernel \<Rightarrow> (vr_interface \<Rightarrow> sk_buff \<Rightarrow> vp_type_t \<Rightarrow> tx_state \<Rightarrow> tx_result) \<Rightarrow>
   vr_interface \<Rightarrow> sk_buff list \<Rightarrow> vp_type_t \<Rightarrow> tx_state \<Rightarrow> tx_state option" where
  "segments_sent K xmit vif [] type st = Some st"
| "segments_sent K xmit vif (seg # segs) type st =
     (case linux_xmit_segment K xmit vif seg type st of
        Inl f \<Rightarrow> None
      | Inr (err, st') \<Rightarrow> if err = 0 then segments_sent K xmit vif segs type st' else None)"


subsection \<open>Reading the fragmentation fields of a header\<close>

text \<open>
  What an IPv4 header says about fragmentation: the "more fragments" flag, and the
  fragment offset in bytes (the field counts units of 8 bytes). \<open>frag_payload\<close> is the
  number of IP payload bytes of a buffer, \<open>skb->len - skb->mac_len - ip->ihl * 4\<close> as a
  number.
\<close>

definition ip_more_fragments :: "vr_ip \<Rightarrow> bool" where
  "ip_more_fragments h = (ntohs (ip_frag_off h) AND IP_MF \<noteq> 0)"

definition ip_fragment_offset :: "vr_ip \<Rightarrow> nat" where
  "ip_fragment_offset h = 8 * unat (ntohs (ip_frag_off h) AND IP_OFFSET)"

definition frag_payload :: "sk_buff \<Rightarrow> nat" where
  "frag_payload skb = unat (skb_len skb) - unat (skb_mac_len skb) - 4 * unat (ip_hl (ip_hdr skb))"

subsection \<open>Concrete inputs\<close>

text \<open>Fixtures: a device, a buffer and an interface with two queued buffers.\<close>

definition eth0 :: net_device where
  "eth0 = \<lparr>dev_mtu = 1500, dev_hard_header_len = 14\<rparr>"

definition hdr0 :: vr_ip where
  "hdr0 = \<lparr>ip_hl = 5, ip_len = 0, ip_id = 0, ip_frag_off = 0, ip_proto = 0, ip_csum = 0,
           ip_saddr = 0, ip_daddr = 0\<rparr>"

definition skb0 :: sk_buff where
  "skb0 = \<lparr>skb_len = 0, skb_data_len = 0, skb_mac_len = 14, skb_protocol = htons ETH_P_IP,
           skb_ip_summed = CHECKSUM_NONE, skb_csum_start = 0, skb_csum_offset = 0,
           skb_rxhash = 0, skb_gso_size = 0, skb_dev = eth0, skb_data = 0, skb_tail = 0,
           skb_end = 0, skb_mac_header = 0, skb_network_header = 14,
           skb_transport_header = 34, skb_ip_at = (\<lambda>_. hdr0),
           skb_udp_at = (\<lambda>_. \<lparr>uh_len = 0, uh_check = 0\<rparr>),
           skb_tcp_at = (\<lambda>_. \<lparr>th_doff = 5\<rparr>)\<rparr>"

definition vif_two_queued :: vr_interface where
  "vif_two_queued = \<lparr>vif_type = VIF_TYPE_VIRTUAL, vif_os = Some eth0,
     vr_skb_inputq = [skb0\<lparr>skb_rxhash := 7\<rparr>, skb0\<lparr>skb_rxhash := 9\<rparr>],
     napi_gro_received = [], napi_completed = False\<rparr>"

text \<open>
  Fixtures for the dispatcher: a TCP and a UDP buffer behind 50 bytes of link and tunnel
  headers and a 20-byte inner IP header.
\<close>

definition skb_gso_tcp :: sk_buff where
  "skb_gso_tcp = skb0\<lparr>skb_gso_size := 1448, skb_mac_len := 50, skb_network_header := 50,
     skb_transport_header := 70, skb_ip_at := (\<lambda>_. hdr0\<lparr>ip_proto := IPPROTO_TCP\<rparr>)\<rparr>"

definition skb_gso_udp :: sk_buff where
  "skb_gso_udp = skb0\<lparr>skb_gso_size := 1480, skb_mac_len := 50, skb_network_header := 50,
     skb_transport_header := 70, skb_ip_at := (\<lambda>_. hdr0\<lparr>ip_proto := IPPROTO_UDP\<rparr>)\<rparr>"

text \<open>
  Fixtures for the transmit path: a kernel whose device refuses the buffers marked
  \<open>0xDEAD\<close> in \<open>rxhash\<close> (return code 1) and whose segmentation fails for lack of memory,
  a physical interface, the initial state, and three 100-byte segments.
\<close>

definition K0 :: kernel where
  "K0 = \<lparr>dev_queue_xmit = (\<lambda>skb. if skb_rxhash skb = 0xDEAD then 1 else 0),
         pskb_may_pull = (\<lambda>skb n. n \<le> unat (skb_len skb)),
         skb_checksum_help = (\<lambda>skb. (0, skb\<lparr>skb_ip_summed := CHECKSUM_NONE\<rparr>)),
         netif_skb_features = (\<lambda>_. 0),
         gso_feature_bits = 0,
         skb_segment = (\<lambda>skb features. Inl (- ENOMEM)),
         skb_gso_segment = (\<lambda>skb features. Inr []),
         ip_fast_csum = (\<lambda>h. NOT (ip_id h)),
         csum_tcpudp_magic = (\<lambda>saddr daddr len proto sum. 0),
         unique_ip_ids = (\<lambda>n. 0x100 + of_nat n)\<rparr>"

definition vif_phys :: vr_interface where
  "vif_phys = \<lparr>vif_type = VIF_TYPE_PHYSICAL, vif_os = Some eth0, vr_skb_inputq = [],
     napi_gro_received = [], napi_completed = False\<rparr>"

definition st0 :: tx_state where
  "st0 = \<lparr>tx_events = [], ip_ids_drawn = 0\<rparr>"

definition seg_a :: sk_buff where
  "seg_a = skb0\<lparr>skb_len := 100, skb_rxhash := 1\<rparr>"

definition seg_b :: sk_buff where
  "seg_b = skb0\<lparr>skb_len := 100, skb_rxhash := 0xDEAD\<rparr>"

definition seg_c :: sk_buff where
  "seg_c = skb0\<lparr>skb_len := 100, skb_rxhash := 3\<rparr>"



definition xmit_recorder :: "vr_interface \<Rightarrow> sk_buff \<Rightarrow> vp_type_t \<Rightarrow> tx_state \<Rightarrow> tx_result" where
  "xmit_recorder vif skb type st = Inr (0, st\<lparr>tx_events := tx_events st @ [Dev_queue_xmit skb]\<rparr>)"


text \<open>
  Fixtures for the fragmenter: an IPv4 packet of 3000 payload bytes behind a 14-byte
  MAC header, the same packet asking for checksum offload, and a kernel whose
  \<open>skb_checksum_help\<close> fails with \<open>-EINVAL\<close>.
\<close>

definition pkt_3000 :: sk_buff where
  "pkt_3000 = skb0\<lparr>skb_len := 3034\<rparr>"

definition pkt_csum :: sk_buff where
  "pkt_csum = skb0\<lparr>skb_len := 3034, skb_ip_summed := CHECKSUM_PARTIAL\<rparr>"

definition K_csum_fails :: kernel where
  "K_csum_fails = K0\<lparr>skb_checksum_help := (\<lambda>skb. (- 22, skb))\<rparr>"

text \<open>
  Fixtures for the fragment headers: the segments of a 3000-byte payload cut at 1464
  bytes (two full ones and a tail of 72 bytes, each behind 14 + 20 header bytes), the
  header of an unfragmented original with identifier \<open>0x1234\<close>, and the header of an
  original that is the last fragment of an earlier fragmentation (offset 128, flag
  clear).
\<close>

definition frag_full :: sk_buff where
  "frag_full = skb0\<lparr>skb_len := 1498\<rparr>"

definition frag_tail :: sk_buff where
  "frag_tail = skb0\<lparr>skb_len := 106\<rparr>"

definition ip_whole :: vr_ip where
  "ip_whole = hdr0\<lparr>ip_id := htons 0x1234\<rparr>"

definition ip_last_fragment :: vr_ip where
  "ip_last_fragment = hdr0\<lparr>ip_id := htons 0x1234, ip_frag_off := htons 0x0010\<rparr>"

text \<open>
  A kernel whose \<open>skb_segment\<close> cuts the 3000-byte packet into its three segments.
\<close>

definition K_segments :: kernel where
  "K_segments = K0\<lparr>dev_queue_xmit := (\<lambda>skb. 0),
     skb_segment := (\<lambda>skb features. Inr [frag_full, frag_full, frag_tail])\<rparr>"

text \<open>
  Fixtures for the dispatcher at the edge of its 16-bit arithmetic: the TCP buffer with
  a GSO size of 65500, and a kernel whose \<open>skb_gso_segment\<close> returns one full segment of
  the size it is asked for, that is \<open>gso_size\<close> payload bytes behind the link and tunnel
  headers, the IP header and the TCP header.
\<close>

definition skb_gso_wrap :: sk_buff where
  "skb_gso_wrap = skb_gso_tcp\<lparr>skb_gso_size := 65500\<rparr>"

definition K_gso :: kernel where
  "K_gso = K0\<lparr>skb_gso_segment := (\<lambda>skb features.
     Inr [skb\<lparr>skb_len := ucast (skb_gso_size skb) + ucast (skb_mac_len skb)
                            + skb_network_header_len skb + 4 * ucast (th_doff (tcp_hdr skb)),
               skb_gso_size := 0\<rparr>])\<rparr>"

text \<open>
  Fixtures for the fragmenter on a link of MTU 576: the device and its interface, an IPv4
  packet of 27777 payload bytes behind 46 bytes of link and tunnel headers and a 20-byte
  IP header, the segment of that packet that carries \<open>n\<close> payload bytes, and a kernel
  whose \<open>skb_segment\<close> cuts the payload of a buffer at its \<open>gso_size\<close> and puts the
  headers in front of \<open>data\<close> back on each piece.
\<close>

definition link576 :: net_device where
  "link576 = \<lparr>dev_mtu = 576, dev_hard_header_len = 14\<rparr>"

definition vif_576 :: vr_interface where
  "vif_576 = vif_phys\<lparr>vif_os := Some link576\<rparr>"

definition pkt_27777 :: sk_buff where
  "pkt_27777 = skb0\<lparr>skb_len := 27843, skb_mac_len := 46, skb_dev := link576,
     skb_network_header := 46, skb_transport_header := 66\<rparr>"

definition frag_of :: "nat \<Rightarrow> sk_buff" where
  "frag_of n = pkt_27777\<lparr>skb_len := of_nat n + 66\<rparr>"

definition K_cut :: kernel where
  "K_cut = K0\<lparr>skb_segment := (\<lambda>skb features.
     Inr (map (\<lambda>l. skb\<lparr>skb_len := of_nat l + (skb_data skb - skb_mac_header skb),
                         skb_data := skb_mac_header skb, skb_gso_size := 0\<rparr>)
            (segment_lengths (unat (skb_len skb)) (unat (skb_gso_size skb)))))\<rparr>"

section \<open>Properties\<close>

subsection \<open>Byte order\<close>

lemma ntohs_htons: "ntohs (htons x) = x"
  unfolding htons_def ntohs_def
  by (rule bit_word_eqI) (auto simp add: bit_simps)

lemma htons_ntohs: "htons (ntohs x) = x"
  unfolding htons_def ntohs_def
  by (rule bit_word_eqI) (auto simp add: bit_simps)

lemma ntohs_or: "ntohs (a OR b) = ntohs a OR ntohs b"
  unfolding ntohs_def
  by (rule bit_word_eqI) (auto simp add: bit_simps)

subsection \<open>Words as numbers\<close>

lemma unat_and_not_7:
  fixes x :: "'a::len word"
  shows "unat (x AND NOT 7) = 8 * (unat x div 8)"
proof -
  have m: "(7 :: 'a word) = mask 3" by (simp add: mask_eq_exp_minus_1)
  have "x AND NOT (mask 3) = push_bit 3 (drop_bit 3 x)"
    by (rule bit_word_eqI) (auto simp add: bit_simps)
  then have "unat (x AND NOT 7) = unat (push_bit 3 (drop_bit 3 x))"
    by (simp only: m)
  also have "\<dots> = take_bit LENGTH('a) (push_bit 3 (unat (drop_bit 3 x)))"
    by (rule unsigned_push_bit_eq)
  also have "\<dots> = take_bit LENGTH('a) (8 * (unat x div 8))"
    by (simp only: unat_drop_bit_eq) (simp add: push_bit_eq_mult drop_bit_eq_div mult.commute)
  also have "\<dots> = 8 * (unat x div 8)"
  proof (rule take_bit_nat_eq_self)
    have "8 * (unat x div 8) \<le> unat x" by simp
    also have "unat x < 2 ^ LENGTH('a)" by (rule unsigned_less)
    finally show "8 * (unat x div 8) < 2 ^ LENGTH('a)" .
  qed
  finally show ?thesis .
qed

lemma unat_and_minus_8:
  fixes x :: "'a::len word"
  shows "unat (x AND - 8) = 8 * (unat x div 8)"
  using unat_and_not_7 [of x] by simp

lemma ucast32_16: "unat (w :: 32 word) < 65536 \<Longrightarrow> unat (ucast w :: 16 word) = unat w"
  by (simp add: unsigned_ucast_eq take_bit_nat_eq_self)

lemma ucast16_32: "unat (ucast (w :: 16 word) :: 32 word) = unat w"
proof -
  have "unat w < 2 ^ 16" using unsigned_less [of w] by simp
  then have "unat w < 2 ^ 32" by simp
  then show ?thesis by (simp add: unsigned_ucast_eq take_bit_nat_eq_self)
qed

lemma ucast4_16: "unat (ucast (w :: 4 word) :: 16 word) = unat w"
proof -
  have "unat w < 2 ^ 4" using unsigned_less [of w] by simp
  then have "unat w < 2 ^ 16" by simp
  then show ?thesis by (simp add: unsigned_ucast_eq take_bit_nat_eq_self)
qed

subsection \<open>The poll routine\<close>

lemma vr_napi_poll_loop_eq:
  "quota < budget \<Longrightarrow>
   vr_napi_poll_loop budget quota q r =
     (if int (length q) < budget - quota
      then (quota + int (length q), [], r @ map (\<lambda>s. vr_skb_set_rxhash s 0) q)
      else (budget, drop (nat (budget - quota)) q,
            r @ map (\<lambda>s. vr_skb_set_rxhash s 0) (take (nat (budget - quota)) q)))"
proof (induction q arbitrary: quota r)
  case Nil
  then show ?case by simp
next
  case (Cons s q)
  show ?case
  proof (cases "quota + 1 = budget")
    case True
    then have "nat (budget - quota) = Suc 0" by simp
    with True show ?thesis by (simp add: Let_def)
  next
    case False
    with Cons.prems have lt: "quota + 1 < budget" by simp
    then have n: "nat (budget - quota) = Suc (nat (budget - (quota + 1)))" by simp
    from False have "vr_napi_poll_loop budget quota (s # q) r =
        vr_napi_poll_loop budget (quota + 1) q (r @ [vr_skb_set_rxhash s 0])"
      by (simp add: Let_def)
    also note Cons.IH [OF lt]
    finally show ?thesis
      unfolding n using lt by (auto simp: algebra_simps)
  qed
qed

text \<open>
  C8, as amended. For every budget \<open>B \<ge> 1\<close> and every queue: one call of
  \<open>vr_napi_poll\<close> hands the first \<open>min B (length queue)\<close> buffers of the queue to
  \<open>napi_gro_receive\<close>, in queue order, and leaves the rest queued; when the queue holds
  fewer than \<open>B\<close> buffers it calls \<open>napi_complete\<close> and returns 0, otherwise it has
  processed exactly \<open>B\<close> buffers and returns \<open>B\<close>.
\<close>

theorem vr_napi_poll_budget:
  assumes "1 \<le> B"
  shows "vr_napi_poll vif B =
    (if int (length (vr_skb_inputq vif)) < B then 0 else B,
     vif\<lparr>vr_skb_inputq := drop (nat B) (vr_skb_inputq vif),
         napi_gro_received := napi_gro_received vif @
           map (\<lambda>s. vr_skb_set_rxhash s 0) (take (nat B) (vr_skb_inputq vif)),
         napi_completed := napi_completed vif \<or> int (length (vr_skb_inputq vif)) < B\<rparr>)"
proof -
  from assms have "0 < B" by simp
  from vr_napi_poll_loop_eq [OF this] show ?thesis
    by (auto simp: vr_napi_poll_def Let_def)
qed

theorem vr_napi_poll_budget_witness:
  "vr_napi_poll vif_two_queued 1 =
     (1, vif_two_queued\<lparr>vr_skb_inputq := [skb0\<lparr>skb_rxhash := 9\<rparr>],
                        napi_gro_received := [skb0]\<rparr>)
   \<and> vr_napi_poll vif_two_queued 3 =
     (0, vif_two_queued\<lparr>vr_skb_inputq := [],
                        napi_gro_received := [skb0, skb0],
                        napi_completed := True\<rparr>)"
  using vr_napi_poll_budget [of 1 vif_two_queued] vr_napi_poll_budget [of 3 vif_two_queued]
  by (simp add: vif_two_queued_def vr_skb_set_rxhash_def skb0_def)

text \<open>
  C8 as stated fails at budget 0: with two buffers queued, a poll with budget 0
  processes both, more than the budget.
\<close>

theorem vr_napi_poll_budget_zero:
  "length (napi_gro_received (snd (vr_napi_poll vif_two_queued 0))) = 2
   \<and> fst (vr_napi_poll vif_two_queued 0) = 0
   \<and> napi_completed (snd (vr_napi_poll vif_two_queued 0))"
  by (simp add: vr_napi_poll_def vif_two_queued_def Let_def)

subsection \<open>The receive queue\<close>

lemma hash_index:
  fixes h n :: "32 word"
  shows "unat (ucast (drop_bit 32 ((ucast h :: 64 word) * ucast n)) :: 32 word) = unat h * unat n div 2 ^ 32"
proof -
  have hb: "unat h < 2 ^ 32" and nb: "unat n < 2 ^ 32"
    using unsigned_less [of h] unsigned_less [of n] by simp_all
  have "unat h * unat n < 2 ^ 32 * 2 ^ 32"
    using hb nb by (meson mult_strict_mono' zero_le)
  then have p: "unat h * unat n < 2 ^ 64" by simp
  have uh: "unat (ucast h :: 64 word) = unat h" and un: "unat (ucast n :: 64 word) = unat n"
  proof -
    have "unat h < 2 ^ 64" "unat n < 2 ^ 64" using hb nb by simp_all
    then show "unat (ucast h :: 64 word) = unat h" "unat (ucast n :: 64 word) = unat n"
      by (simp_all add: unsigned_ucast_eq take_bit_nat_eq_self)
  qed
  have m: "unat ((ucast h :: 64 word) * ucast n) = unat h * unat n"
    using p by (simp add: unat_word_ariths uh un)
  have "unat (drop_bit 32 ((ucast h :: 64 word) * ucast n))
      = drop_bit 32 (unat ((ucast h :: 64 word) * ucast n))"
    by (rule unat_drop_bit_eq)
  then have d: "unat (drop_bit 32 ((ucast h :: 64 word) * ucast n)) = unat h * unat n div 2 ^ 32"
    by (simp only: m drop_bit_eq_div)
  have "unat h * unat n div 2 ^ 32 < 2 ^ 32"
    using p by (simp add: less_mult_imp_div_less)
  then show ?thesis
    using d by (simp add: unsigned_ucast_eq take_bit_nat_eq_self)
qed

lemma hash_index_less:
  fixes h :: "32 word"
  assumes "0 < n"
  shows "unat h * n div 2 ^ 32 < n"
proof -
  have "unat h < 2 ^ 32" using unsigned_less [of h] by simp
  then have "unat h * n < 2 ^ 32 * n" using assms by simp
  then show ?thesis by (simp add: less_mult_imp_div_less mult.commute)
qed

lemma linux_get_rxq_loop_nth:
  "count \<le> next_cpu \<Longrightarrow> unat next_cpu - unat count < length cs \<Longrightarrow>
   linux_get_rxq_loop cs count next_cpu = Some (cs ! (unat next_cpu - unat count))"
proof (induction cs arbitrary: count)
  case Nil then show ?case by simp
next
  case (Cons c cs)
  show ?case
  proof (cases "count = next_cpu")
    case True then show ?thesis by simp
  next
    case False
    with Cons.prems have lt: "count < next_cpu" by simp
    then have a: "count + 1 \<le> next_cpu" by (rule inc_le)
    from lt have "unat count < unat next_cpu" by (simp add: word_less_nat_alt)
    moreover have "unat next_cpu < 2 ^ 32" using unsigned_less [of next_cpu] by simp
    ultimately have b: "unat (count + 1) = unat count + 1"
      by (simp add: unat_word_ariths)
    have c: "unat next_cpu - unat count = Suc (unat next_cpu - unat (count + 1))"
      using \<open>unat count < unat next_cpu\<close> b by simp
    have "unat next_cpu - unat (count + 1) < length cs"
      using Cons.prems(2) c by simp
    from Cons.IH [OF a this] False show ?thesis
      by (simp add: c)
  qed
qed

lemma candidates_eq:
  assumes "current_core < 2 ^ 32"
      and "\<And>p. previous_core = Some p \<Longrightarrow> p < nr_cpu_ids T"
      and "nr_cpu_ids T \<le> 65536"
  shows "for_each_cpu T
      (if prev_cpu_arg previous_core \<noteq> 0 \<and> unat (prev_cpu_arg previous_core) \<le> nr_cpu_ids T
       then cpumask_andnot
              (cpumask_andnot (cpumask_of_node T (cpu_to_node T (unat (of_nat current_core :: 32 word))))
                 (cpu_sibling_mask T (unat (of_nat current_core :: 32 word))))
              (cpu_sibling_mask T (unat (prev_cpu_arg previous_core - 1)))
       else cpumask_andnot (cpumask_of_node T (cpu_to_node T (unat (of_nat current_core :: 32 word))))
                 (cpu_sibling_mask T (unat (of_nat current_core :: 32 word))))
    = candidate_cores T current_core previous_core"
proof -
  have c: "unat (of_nat current_core :: 32 word) = current_core"
    using assms(1) by (simp add: unat_of_nat)
  show ?thesis
  proof (cases previous_core)
    case None
    then show ?thesis
      by (simp add: c for_each_cpu_def candidate_cores_def cpumask_andnot_def prev_cpu_arg_def)
  next
    case (Some p)
    with assms have p: "p < 65536" by fastforce
    then have u: "unat (of_nat p + 1 :: 32 word) = p + 1"
      by (simp add: unat_word_ariths unat_of_nat)
    then have nz: "(of_nat p + 1 :: 32 word) \<noteq> 0"
      by (metis Suc_eq_plus1 nat.distinct(1) unat_0)
    have up: "unat (of_nat p :: 32 word) = p" using p by (simp add: unat_of_nat)
    from Some assms(2) have "p + 1 \<le> nr_cpu_ids T" by fastforce
    then show ?thesis
      using Some u nz up
      by (simp add: c for_each_cpu_def candidate_cores_def cpumask_andnot_def prev_cpu_arg_def)
  qed
qed

lemma candidates_bound: "length (candidate_cores T c p) \<le> nr_cpu_ids T"
  unfolding candidate_cores_def
  by (rule order_trans [OF length_filter_le]) simp

lemma candidates_mem:
  "x \<in> set (candidate_cores T c p) \<Longrightarrow>
     x < nr_cpu_ids T \<and> cpumask_of_node T (cpu_to_node T c) x \<and> \<not> cpu_sibling_mask T c x
     \<and> (\<forall>q. p = Some q \<longrightarrow> \<not> cpu_sibling_mask T q x)"
  by (auto simp: candidate_cores_def)

lemma linux_get_rxq_refines:
  assumes nr: "nr_cpu_ids T \<le> 65536"
      and cur: "current_core < nr_cpu_ids T"
      and prev: "\<And>p. previous_core = Some p \<Longrightarrow> p < nr_cpu_ids T"
  shows "unat (linux_get_rxq T flow_hash (of_nat current_core) (prev_cpu_arg previous_core))
           = select_core T (unat flow_hash) current_core previous_core"
proof -
  let ?cs = "candidate_cores T current_core previous_core"
  have c32: "current_core < 2 ^ 32" using nr cur by simp
  have c16: "current_core < 65536" using nr cur by simp
  have len: "length ?cs \<le> 65536" using candidates_bound [of T current_core previous_core] nr by simp
  have ulen: "unat (of_nat (length ?cs) :: 32 word) = length ?cs"
    using len by (simp add: unat_of_nat)
  have nz: "(of_nat (length ?cs) :: 32 word) \<noteq> 0 \<longleftrightarrow> ?cs \<noteq> []"
    using ulen by (cases "candidate_cores T current_core previous_core") auto
  have ucur: "unat (ucast (of_nat current_core :: 32 word) :: 16 word) = current_core"
    using c16 by (simp add: unsigned_ucast_eq unat_of_nat take_bit_nat_eq_self)
  show ?thesis
  proof (cases "?cs = []")
    case True
    then show ?thesis
      using nz ucur
      by (simp add: linux_get_rxq_def Let_def cpumask_weight_def
          candidates_eq [OF c32 prev nr] select_core_def)
  next
    case False
    let ?next = "ucast (drop_bit 32 ((ucast flow_hash :: 64 word) * ucast (of_nat (length ?cs) :: 32 word))) :: 32 word"
    have idx: "unat ?next = unat flow_hash * length ?cs div 2 ^ 32"
      by (simp add: hash_index ulen)
    have lt: "unat flow_hash * length ?cs div 2 ^ 32 < length ?cs"
      using False hash_index_less [of "length ?cs" flow_hash] by simp
    have "linux_get_rxq_loop ?cs 0 ?next = Some (?cs ! (unat ?next - unat (0 :: 32 word)))"
    proof (rule linux_get_rxq_loop_nth)
      show "0 \<le> ?next" by simp
      show "unat ?next - unat (0 :: 32 word) < length ?cs" using lt idx by simp
    qed
    then have loop: "linux_get_rxq_loop ?cs 0 ?next = Some (?cs ! (unat flow_hash * length ?cs div 2 ^ 32))"
      by (simp add: idx)
    have "?cs ! (unat flow_hash * length ?cs div 2 ^ 32) \<in> set ?cs"
      using lt by simp
    then have "?cs ! (unat flow_hash * length ?cs div 2 ^ 32) < 65536"
      using candidates_mem nr by fastforce
    then have "unat (of_nat (?cs ! (unat flow_hash * length ?cs div 2 ^ 32)) :: 16 word)
        = ?cs ! (unat flow_hash * length ?cs div 2 ^ 32)"
      by (simp add: unat_of_nat)
    then show ?thesis
      using False nz loop
      by (simp add: linux_get_rxq_def Let_def cpumask_weight_def
          candidates_eq [OF c32 prev nr] select_core_def)
  qed
qed

text \<open>
  C1. On a topology of at most \<open>2^16\<close> CPUs (the queue number is a \<open>u16\<close>), for a
  current core and an optional previous core that are CPUs of the topology, and every
  flow hash: \<open>linux_get_rxq\<close> returns what \<open>select_core\<close> of the specification
  returns, that is the candidate at index \<open>flow_hash * |candidates| div 2^32\<close> in
  ascending order when there is a candidate and the current core otherwise; and when
  there is a candidate the result is one, hence no hyper-thread sibling of the current
  core nor of the previous core. Both sides are functions of their arguments, so equal
  inputs give equal outputs.
\<close>

theorem linux_get_rxq_select_core:
  assumes "nr_cpu_ids T \<le> 65536"
      and "current_core < nr_cpu_ids T"
      and "case previous_core of None \<Rightarrow> True | Some p \<Rightarrow> p < nr_cpu_ids T"
  shows "unat (linux_get_rxq T flow_hash (of_nat current_core) (prev_cpu_arg previous_core))
           = select_core T (unat flow_hash) current_core previous_core
     \<and> (candidate_cores T current_core previous_core \<noteq> [] \<longrightarrow>
          select_core T (unat flow_hash) current_core previous_core
            \<in> set (candidate_cores T current_core previous_core)
          \<and> cpumask_of_node T (cpu_to_node T current_core)
                (select_core T (unat flow_hash) current_core previous_core)
          \<and> \<not> cpu_sibling_mask T current_core
                (select_core T (unat flow_hash) current_core previous_core)
          \<and> (\<forall>p. previous_core = Some p \<longrightarrow>
                \<not> cpu_sibling_mask T p
                    (select_core T (unat flow_hash) current_core previous_core)))"
proof -
  let ?cs = "candidate_cores T current_core previous_core"
  let ?r = "select_core T (unat flow_hash) current_core previous_core"
  from assms(3) have prev: "\<And>p. previous_core = Some p \<Longrightarrow> p < nr_cpu_ids T"
    by simp
  have eq: "unat (linux_get_rxq T flow_hash (of_nat current_core) (prev_cpu_arg previous_core)) = ?r"
    using assms(1,2) prev by (rule linux_get_rxq_refines)
  have mem: "?r \<in> set ?cs" if ne: "?cs \<noteq> []"
  proof -
    have "unat flow_hash * length ?cs div 2 ^ 32 < length ?cs"
      using ne hash_index_less [of "length ?cs" flow_hash] by simp
    then have "?cs ! (unat flow_hash * length ?cs div 2 ^ 32) \<in> set ?cs"
      by (rule nth_mem)
    then show ?thesis using ne by (simp add: select_core_def Let_def)
  qed
  show ?thesis
    using eq mem candidates_mem [of ?r T current_core previous_core] by blast
qed

theorem linux_get_rxq_select_core_witness:
  "linux_get_rxq topo8 0x80000000 2 4 = 4
   \<and> candidate_cores topo8 2 (Some 3) = [0, 1, 4, 5]
   \<and> \<not> cpu_sibling_mask topo8 2 4 \<and> \<not> cpu_sibling_mask topo8 3 4"
proof -
  have c: "candidate_cores topo8 2 (Some 3) = [0, 1, 4, 5]"
    by (simp add: candidate_cores_def topo8_def upt_rec)
  have s: "select_core topo8 2147483648 2 (Some 3) = 4"
    by (simp add: select_core_def c Let_def)
  have a: "prev_cpu_arg (Some 3) = 4" by (simp add: prev_cpu_arg_def)
  have "nr_cpu_ids topo8 \<le> 65536" "2 < nr_cpu_ids topo8"
       "case Some 3 of None \<Rightarrow> True | Some p \<Rightarrow> p < nr_cpu_ids topo8"
    by (simp_all add: topo8_def)
  from linux_get_rxq_select_core [OF this, of "0x80000000"]
  have r: "unat (linux_get_rxq topo8 0x80000000 2 4) = 4"
    and n: "\<not> cpu_sibling_mask topo8 2 4" "\<not> cpu_sibling_mask topo8 3 4"
    by (simp_all add: s a c)
  have "linux_get_rxq topo8 0x80000000 2 4 = of_nat (unat (linux_get_rxq topo8 0x80000000 2 4))"
    by simp
  also have "\<dots> = 4" unfolding r by simp
  finally show ?thesis using c n by simp
qed

subsection \<open>Packets from socket buffers\<close>

lemma store_field_fits: "unat v < 2 ^ (sizeof t * 8) \<Longrightarrow> store_field t v = unat v"
  by (simp add: store_field_def)

text \<open>
  C10. \<open>linux_get_packet\<close> drops the packet with \<open>VP_DROP_INVALID_PACKET\<close> and returns
  \<open>NULL\<close> when the tail, data or end offset is at least \<open>2^(8 * sizeof(field))\<close>;
  otherwise the packet it returns has \<open>vp_tail\<close>, \<open>vp_data\<close> and \<open>vp_end\<close> equal to
  the three offsets, with nothing cut off.
\<close>

theorem linux_get_packet_offsets:
  "linux_get_packet L cpu skb vif =
     (if 2 ^ (sizeof (vp_tail_t L) * 8) \<le> unat (skb_tail skb)
         \<or> 2 ^ (sizeof (vp_data_t L) * 8) \<le> unat (skb_data skb)
         \<or> 2 ^ (sizeof (vp_end_t L) * 8) \<le> unat (skb_end skb)
      then Inl VP_DROP_INVALID_PACKET
      else Inr \<lparr>vp_cpu = cpu,
                vp_tail = unat (skb_tail skb),
                vp_data = unat (skb_data skb),
                vp_end = unat (skb_end skb),
                vp_len = store_field (vp_len_t L) (skb_headlen skb),
                vp_if = vif,
                vp_network_h = 0,
                vp_inner_network_h = 0,
                vp_nh = None,
                vp_flags = (if skb_ip_summed skb = CHECKSUM_PARTIAL
                            then {VP_FLAG_CSUM_PARTIAL} else {}),
                vp_type = VP_TYPE_NULL\<rparr>)"
  by (simp add: linux_get_packet_def Let_def store_field_fits not_le)

subsection \<open>The segment size of the dispatcher\<close>

text \<open>
  As long as the 16-bit sizes do not wrap (the adjusted size fits \<open>unsigned short\<close>, MTU
  plus hard header length fits \<open>unsigned int\<close>) and the headers alone fit the link: the
  adjusted segment size of \<open>linux_gso_xmit\<close> is the GSO size plus the MAC header length
  plus the network header length, plus the TCP header length for TCP and nothing more
  otherwise; and when it exceeds MTU plus hard header length, the GSO size left for
  segmentation is the original one less the overshoot, rounded down to a multiple of 8
  for UDP; otherwise the GSO size is unchanged.
\<close>

lemma linux_gso_xmit_sizes:
  assumes fit: "unat (skb_gso_size skb) + unat (skb_mac_len skb) + unat (skb_network_header_len skb)
                 + (if ip_proto (ip_hdr skb) = IPPROTO_TCP then 4 * unat (th_doff (tcp_hdr skb)) else 0)
                 < 65536"
      and lim: "unat (dev_mtu ndev) + unat (dev_hard_header_len ndev) < 2 ^ 32"
      and hdrs: "unat (skb_mac_len skb) + unat (skb_network_header_len skb)
                 + (if ip_proto (ip_hdr skb) = IPPROTO_TCP then 4 * unat (th_doff (tcp_hdr skb)) else 0)
                 \<le> unat (dev_mtu ndev) + unat (dev_hard_header_len ndev)"
  shows "unat (linux_gso_xmit_seg_size skb)
           = unat (skb_gso_size skb) + unat (skb_mac_len skb) + unat (skb_network_header_len skb)
             + (if ip_proto (ip_hdr skb) = IPPROTO_TCP then 4 * unat (th_doff (tcp_hdr skb)) else 0)
       \<and> unat (linux_gso_xmit_gso_size ndev skb)
           = (let adjusted = unat (linux_gso_xmit_seg_size skb);
                  limit = unat (dev_mtu ndev) + unat (dev_hard_header_len ndev)
              in if limit < adjusted
                 then (if ip_proto (ip_hdr skb) = IPPROTO_UDP
                       then 8 * ((unat (skb_gso_size skb) - (adjusted - limit)) div 8)
                       else unat (skb_gso_size skb) - (adjusted - limit))
                 else unat (skb_gso_size skb))"
proof -
  let ?g = "unat (skb_gso_size skb)" and ?m = "unat (skb_mac_len skb)"
  let ?n = "unat (skb_network_header_len skb)"
  let ?t = "if ip_proto (ip_hdr skb) = IPPROTO_TCP then 4 * unat (th_doff (tcp_hdr skb)) else 0"
  let ?lim = "unat (dev_mtu ndev) + unat (dev_hard_header_len ndev)"
  have mn: "unat (ucast (skb_mac_len skb) + skb_network_header_len skb :: 32 word) = ?m + ?n"
    using fit by (simp add: unat_word_ariths ucast16_32 split: if_splits)
  have s1: "unat (skb_gso_size skb
              + ucast (ucast (skb_mac_len skb) + skb_network_header_len skb :: 32 word))
            = ?g + ?m + ?n"
    using fit mn by (simp add: unat_word_ariths ucast32_16 split: if_splits)
  have d: "unat (ucast (th_doff (tcp_hdr skb)) * 4 :: 16 word) = 4 * unat (th_doff (tcp_hdr skb))"
  proof -
    have "unat (th_doff (tcp_hdr skb)) < 2 ^ 4" using unsigned_less [of "th_doff (tcp_hdr skb)"] by simp
    then show ?thesis by (simp add: unat_word_ariths ucast4_16)
  qed
  have seg: "unat (linux_gso_xmit_seg_size skb) = ?g + ?m + ?n + ?t"
    using fit s1 d by (simp add: linux_gso_xmit_seg_size_def Let_def unat_word_ariths split: if_splits)
  have seg32: "unat (ucast (linux_gso_xmit_seg_size skb) :: 32 word) = ?g + ?m + ?n + ?t"
    by (simp add: ucast16_32 seg)
  have lim32: "unat (dev_mtu ndev + ucast (dev_hard_header_len ndev)) = ?lim"
    using lim by (simp add: unat_word_ariths ucast16_32)
  have cmp: "dev_mtu ndev + ucast (dev_hard_header_len ndev) < ucast (linux_gso_xmit_seg_size skb)
      \<longleftrightarrow> ?lim < ?g + ?m + ?n + ?t"
    by (simp only: word_less_nat_alt seg32 lim32)
  have over: "unat (skb_gso_size skb
        - ucast ((ucast (linux_gso_xmit_seg_size skb) :: 32 word) - dev_mtu ndev
                   - ucast (dev_hard_header_len ndev)))
      = ?g - (?g + ?m + ?n + ?t - ?lim)" if big: "?lim < ?g + ?m + ?n + ?t"
  proof -
    have a: "unat ((ucast (linux_gso_xmit_seg_size skb) :: 32 word) - dev_mtu ndev)
        = ?g + ?m + ?n + ?t - unat (dev_mtu ndev)"
      using big seg32 by (simp add: unat_sub word_le_nat_alt)
    have b: "unat ((ucast (linux_gso_xmit_seg_size skb) :: 32 word) - dev_mtu ndev
                   - ucast (dev_hard_header_len ndev))
        = ?g + ?m + ?n + ?t - ?lim"
      using big a by (simp add: unat_sub word_le_nat_alt ucast16_32)
    have "?g + ?m + ?n + ?t - ?lim \<le> ?g" using hdrs by simp
    moreover have "?g < 65536" using unsigned_less [of "skb_gso_size skb"] by simp
    ultimately have c: "unat (ucast ((ucast (linux_gso_xmit_seg_size skb) :: 32 word) - dev_mtu ndev
                   - ucast (dev_hard_header_len ndev)) :: 16 word) = ?g + ?m + ?n + ?t - ?lim"
      using b by (simp add: ucast32_16)
    show ?thesis
      using c \<open>?g + ?m + ?n + ?t - ?lim \<le> ?g\<close> by (simp add: unat_sub word_le_nat_alt)
  qed
  have gso: "unat (linux_gso_xmit_gso_size ndev skb)
      = (if ?lim < ?g + ?m + ?n + ?t
         then (if ip_proto (ip_hdr skb) = IPPROTO_UDP
               then 8 * ((?g - (?g + ?m + ?n + ?t - ?lim)) div 8)
               else ?g - (?g + ?m + ?n + ?t - ?lim))
         else ?g)"
  proof (cases "?lim < ?g + ?m + ?n + ?t")
    case True
    with cmp have w: "dev_mtu ndev + ucast (dev_hard_header_len ndev)
        < ucast (linux_gso_xmit_seg_size skb)" by simp
    show ?thesis
      unfolding linux_gso_xmit_gso_size_def Let_def
      by (simp only: w if_True True if_distrib [of unat] unat_and_not_7 over [OF True])
  next
    case False
    with cmp have w: "\<not> dev_mtu ndev + ucast (dev_hard_header_len ndev)
        < ucast (linux_gso_xmit_seg_size skb)" by simp
    show ?thesis
      unfolding linux_gso_xmit_gso_size_def Let_def
      by (simp only: w if_False False)
  qed
  show ?thesis
    unfolding Let_def seg gso by simp
qed

lemma linux_gso_xmit_sizes_fixtures:
  "unat (linux_gso_xmit_seg_size skb_gso_tcp) = 1538
   \<and> unat (linux_gso_xmit_gso_size eth0 skb_gso_tcp) = 1424
   \<and> unat (linux_gso_xmit_seg_size skb_gso_udp) = 1550
   \<and> unat (linux_gso_xmit_gso_size eth0 skb_gso_udp) = 1440"
proof -
  have t: "ip_hdr skb_gso_tcp = hdr0\<lparr>ip_proto := IPPROTO_TCP\<rparr>"
          "skb_gso_size skb_gso_tcp = 1448" "skb_mac_len skb_gso_tcp = 50"
          "skb_network_header_len skb_gso_tcp = 20" "th_doff (tcp_hdr skb_gso_tcp) = 5"
    by (simp_all add: skb_gso_tcp_def skb0_def ip_hdr_def tcp_hdr_def skb_network_header_len_def)
  have u: "ip_hdr skb_gso_udp = hdr0\<lparr>ip_proto := IPPROTO_UDP\<rparr>"
          "skb_gso_size skb_gso_udp = 1480" "skb_mac_len skb_gso_udp = 50"
          "skb_network_header_len skb_gso_udp = 20"
    by (simp_all add: skb_gso_udp_def skb0_def ip_hdr_def skb_network_header_len_def)
  have p: "IPPROTO_UDP \<noteq> IPPROTO_TCP" by (simp add: IPPROTO_UDP_def IPPROTO_TCP_def)
  show ?thesis
    using linux_gso_xmit_sizes [of skb_gso_tcp eth0] linux_gso_xmit_sizes [of skb_gso_udp eth0]
    by (simp add: t u p eth0_def Let_def)
qed

text \<open>
  Under the same conditions \<open>linux_gso_xmit\<close> itself, for any kernel and any callee:
  the buffer it hands to \<open>skb_gso_segment\<close> and frees afterwards is the original with that
  GSO size, and the segments go to \<open>linux_xmit_segments\<close>.
\<close>

lemma linux_gso_xmit_segments_at:
  assumes os: "vif_os vif = Some ndev"
      and fit: "unat (skb_gso_size skb) + unat (skb_mac_len skb) + unat (skb_network_header_len skb)
                 + (if ip_proto (ip_hdr skb) = IPPROTO_TCP then 4 * unat (th_doff (tcp_hdr skb)) else 0)
                 < 65536"
      and lim: "unat (dev_mtu ndev) + unat (dev_hard_header_len ndev) < 2 ^ 32"
      and hdrs: "unat (skb_mac_len skb) + unat (skb_network_header_len skb)
                 + (if ip_proto (ip_hdr skb) = IPPROTO_TCP then 4 * unat (th_doff (tcp_hdr skb)) else 0)
                 \<le> unat (dev_mtu ndev) + unat (dev_hard_header_len ndev)"
  shows "linux_gso_xmit K xmit vif skb type st =
     (let adjusted = unat (skb_gso_size skb) + unat (skb_mac_len skb)
                       + unat (skb_network_header_len skb)
                       + (if ip_proto (ip_hdr skb) = IPPROTO_TCP
                          then 4 * unat (th_doff (tcp_hdr skb)) else 0);
          limit = unat (dev_mtu ndev) + unat (dev_hard_header_len ndev);
          gso = (if limit < adjusted
                 then (if ip_proto (ip_hdr skb) = IPPROTO_UDP
                       then 8 * ((unat (skb_gso_size skb) - (adjusted - limit)) div 8)
                       else unat (skb_gso_size skb) - (adjusted - limit))
                 else unat (skb_gso_size skb));
          skb1 = skb\<lparr>skb_gso_size := of_nat gso\<rparr>;
          st1 = kfree_skb skb1 st
      in case skb_gso_segment K skb1 (netif_skb_features K skb AND NOT (gso_feature_bits K)) of
           Inl err \<Rightarrow> Inr st1
         | Inr [] \<Rightarrow> Inr st1
         | Inr (seg # segs) \<Rightarrow>
             (case linux_xmit_segments K xmit vif (seg # segs) type st1 of
                Inl f \<Rightarrow> Inl f
              | Inr (err, st2) \<Rightarrow> Inr st2))"
proof -
  define gso where "gso = (let adjusted = unat (skb_gso_size skb) + unat (skb_mac_len skb)
                       + unat (skb_network_header_len skb)
                       + (if ip_proto (ip_hdr skb) = IPPROTO_TCP
                          then 4 * unat (th_doff (tcp_hdr skb)) else 0);
          limit = unat (dev_mtu ndev) + unat (dev_hard_header_len ndev)
       in (if limit < adjusted
                 then (if ip_proto (ip_hdr skb) = IPPROTO_UDP
                       then 8 * ((unat (skb_gso_size skb) - (adjusted - limit)) div 8)
                       else unat (skb_gso_size skb) - (adjusted - limit))
                 else unat (skb_gso_size skb)))"
  from linux_gso_xmit_sizes [OF fit lim hdrs]
  have "unat (linux_gso_xmit_gso_size ndev skb) = gso"
    unfolding gso_def Let_def by simp
  then have g: "linux_gso_xmit_gso_size ndev skb = of_nat gso"
    by (metis of_nat_unat ucast_id)
  show ?thesis
    by (simp only: linux_gso_xmit_def Let_def os option.case g gso_def)
qed

text \<open>
  The two TCP buffers in the dispatcher. With a GSO size of 1448 the adjusted size is
  1538, the GSO size is cut to 1424 and the segment is 1514 bytes long, which is MTU plus
  hard header length. With a GSO size of 65500 the sum is 65590, but \<open>seg_size\<close> holds
  54, so the test against 1514 fails and the GSO size stays as it is.
\<close>

lemma linux_gso_xmit_seg_size_wrap: "linux_gso_xmit_seg_size skb_gso_wrap = 54"
  by (simp add: linux_gso_xmit_seg_size_def skb_gso_wrap_def skb_gso_tcp_def skb0_def ip_hdr_def
      tcp_hdr_def skb_network_header_len_def Let_def hdr0_def IPPROTO_TCP_def)

lemma linux_gso_xmit_gso_size_wrap: "linux_gso_xmit_gso_size eth0 skb_gso_wrap = 65500"
  by (simp add: linux_gso_xmit_gso_size_def linux_gso_xmit_seg_size_wrap Let_def eth0_def)
     (simp add: skb_gso_wrap_def)

lemma skb_gso_wrap_sum:
  "unat (skb_gso_size skb_gso_wrap) + unat (skb_mac_len skb_gso_wrap)
     + unat (skb_network_header_len skb_gso_wrap) + 4 * unat (th_doff (tcp_hdr skb_gso_wrap))
   = 65590"
  by (simp add: skb_gso_wrap_def skb_gso_tcp_def skb0_def tcp_hdr_def skb_network_header_len_def)

lemma linux_gso_xmit_skb_gso_wrap:
  "linux_gso_xmit K_gso xmit_recorder vif_phys skb_gso_wrap VP_TYPE_IP st0
     = Inr \<lparr>tx_events = [Kfree_skb skb_gso_wrap,
                         Dev_queue_xmit (skb_gso_wrap\<lparr>skb_len := 65590, skb_gso_size := 0\<rparr>)],
            ip_ids_drawn = 0\<rparr>"
  apply (simp add: linux_gso_xmit_def vif_phys_def linux_gso_xmit_gso_size_wrap Let_def K_gso_def
      K0_def linux_xmit_segment_def xmit_recorder_def kfree_skb_def st0_def)
  apply (simp add: skb_gso_wrap_def skb_gso_tcp_def skb0_def tcp_hdr_def skb_network_header_len_def)
  done

lemma linux_gso_xmit_gso_size_tcp: "linux_gso_xmit_gso_size eth0 skb_gso_tcp = 1424"
  by (simp add: linux_gso_xmit_gso_size_def linux_gso_xmit_seg_size_def skb_gso_tcp_def skb0_def
      ip_hdr_def tcp_hdr_def skb_network_header_len_def Let_def hdr0_def IPPROTO_TCP_def
      IPPROTO_UDP_def eth0_def)

lemma linux_gso_xmit_skb_gso_tcp:
  "linux_gso_xmit K_gso xmit_recorder vif_phys skb_gso_tcp VP_TYPE_IP st0
     = Inr \<lparr>tx_events = [Kfree_skb (skb_gso_tcp\<lparr>skb_gso_size := 1424\<rparr>),
                         Dev_queue_xmit (skb_gso_tcp\<lparr>skb_len := 1514, skb_gso_size := 0\<rparr>)],
            ip_ids_drawn = 0\<rparr>"
  apply (simp add: linux_gso_xmit_def vif_phys_def linux_gso_xmit_gso_size_tcp Let_def K_gso_def
      K0_def linux_xmit_segment_def xmit_recorder_def kfree_skb_def st0_def)
  apply (simp add: skb_gso_tcp_def skb0_def tcp_hdr_def skb_network_header_len_def)
  done

text \<open>
  C9, the code at a failing input. A TCP buffer with a GSO size of 65500 behind 50 bytes
  of link and tunnel headers, a 20-byte IP header and a 20-byte TCP header, on a device
  of MTU 1500 and hard header length 14. The adjusted segment size is 65590, which
  exceeds 1514 by 64076, so the GSO size for segmentation should be 1424; but the
  \<open>unsigned short\<close> \<open>seg_size\<close> of \<open>linux_gso_xmit\<close> holds 54, the GSO size stays 65500,
  \<open>skb_gso_segment\<close> is called with it and the segment that goes out is 65590 bytes long.
  The same buffer with a GSO size of 1448 is segmented at 1424 and goes out in 1514
  bytes.
\<close>

theorem linux_gso_xmit_segment_size_wraps:
  "ip_proto (ip_hdr skb_gso_wrap) = IPPROTO_TCP
   \<and> unat (skb_gso_size skb_gso_wrap) + unat (skb_mac_len skb_gso_wrap)
       + unat (skb_network_header_len skb_gso_wrap) + 4 * unat (th_doff (tcp_hdr skb_gso_wrap))
     = 65590
   \<and> unat (dev_mtu eth0) + unat (dev_hard_header_len eth0) = 1514
   \<and> linux_gso_xmit_seg_size skb_gso_wrap = 54
   \<and> linux_gso_xmit_gso_size eth0 skb_gso_wrap = 65500
   \<and> linux_gso_xmit K_gso xmit_recorder vif_phys skb_gso_wrap VP_TYPE_IP st0
       = Inr \<lparr>tx_events = [Kfree_skb skb_gso_wrap,
                           Dev_queue_xmit (skb_gso_wrap\<lparr>skb_len := 65590, skb_gso_size := 0\<rparr>)],
              ip_ids_drawn = 0\<rparr>
   \<and> linux_gso_xmit K_gso xmit_recorder vif_phys skb_gso_tcp VP_TYPE_IP st0
       = Inr \<lparr>tx_events = [Kfree_skb (skb_gso_tcp\<lparr>skb_gso_size := 1424\<rparr>),
                           Dev_queue_xmit (skb_gso_tcp\<lparr>skb_len := 1514, skb_gso_size := 0\<rparr>)],
              ip_ids_drawn = 0\<rparr>"
proof -
  have p: "ip_proto (ip_hdr skb_gso_wrap) = IPPROTO_TCP"
    by (simp add: skb_gso_wrap_def skb_gso_tcp_def skb0_def ip_hdr_def)
  have l: "unat (dev_mtu eth0) + unat (dev_hard_header_len eth0) = 1514"
    by (simp add: eth0_def)
  show ?thesis
    using p l skb_gso_wrap_sum linux_gso_xmit_seg_size_wrap linux_gso_xmit_gso_size_wrap
      linux_gso_xmit_skb_gso_wrap linux_gso_xmit_skb_gso_tcp
    by (simp only: simp_thms)
qed

subsection \<open>The fragment size\<close>

lemma frag_shrink:
  fixes P F0 n r :: nat
  assumes F0: "8 dvd F0" and n: "n = P div F0" and r: "r = P mod F0"
      and n0: "0 < n" and r0: "0 < r" and r64: "r < 64" and big: "8 * n + 135 < F0"
  defines "F \<equiv> 8 * ((F0 - (64 - r) div n - 1) div 8)"
  shows "0 < F \<and> P div F = n \<and> P mod F = r + n * (F0 - F) \<and> 64 \<le> P mod F"
proof -
  define d where "d = (64 - r) div n"
  define s where "s = F0 - F"
  have d63: "d \<le> 63"
  proof -
    have "d \<le> 64 - r" unfolding d_def by (rule div_le_dividend)
    then show ?thesis using r0 by simp
  qed
  have F_le: "F \<le> F0 - d - 1" unfolding F_def d_def by simp
  have F_ge: "F0 - d - 8 \<le> F"
  proof -
    have "(F0 - d - 1) mod 8 \<le> 7" by simp
    moreover have "F = (F0 - d - 1) - (F0 - d - 1) mod 8"
      unfolding F_def d_def by (simp add: minus_mod_eq_mult_div)
    ultimately show ?thesis by linarith
  qed
  have s1: "d + 1 \<le> s" and s8: "s \<le> d + 8" and Fs: "F0 = F + s"
    unfolding s_def using F_le F_ge big d63 by linarith+
  have nd: "n * d \<le> 64 - r" unfolding d_def by simp
  have nd': "64 - r < n + n * d" unfolding d_def using n0 by (rule dividend_less_times_div)
  have ns_le: "n * s \<le> n * d + 8 * n"
    using mult_le_mono2 [OF s8, of n] by (simp add: algebra_simps)
  have ns_ge: "n * d + n \<le> n * s"
    using mult_le_mono2 [OF s1, of n] by (simp add: algebra_simps)
  have rem_lt: "r + n * s < F" using ns_le nd F_ge big d63 r64 by linarith
  have P: "P = n * F + (r + n * s)"
  proof -
    have "P = n * F0 + r" unfolding n r by simp
    also have "n * F0 = n * F + n * s" unfolding Fs by (simp add: algebra_simps)
    finally show ?thesis by simp
  qed
  have Fpos: "0 < F" using rem_lt by simp
  have dv: "P div F = n"
    using P rem_lt Fpos by (metis add.commute div_mult_self2 div_less add_cancel_right_left less_numeral_extra(3) mult.commute)
  have md: "P mod F = r + n * s"
    using P rem_lt by (metis mod_less mod_mult_self4 mult.commute add.commute)
  have "64 \<le> r + n * s" using ns_ge nd' r64 by linarith
  then show ?thesis using Fpos dv md unfolding s_def by simp
qed


lemma segment_lengths_butlast:
  "l \<in> set (butlast (segment_lengths p sz)) \<Longrightarrow> l = sz"
  by (auto simp: segment_lengths_def butlast_append split: if_splits dest: in_set_butlastD)

lemma segment_lengths_last:
  assumes "0 < sz" and "sz \<le> p"
  shows "last (segment_lengths p sz) = (if p mod sz = 0 then sz else p mod sz)"
proof -
  have "0 < p div sz" using assms by (simp add: div_greater_zero_iff)
  then show ?thesis by (auto simp: segment_lengths_def)
qed

lemma linux_inet_fragment_size_dvd:
  "linux_inet_fragment_size payload fs = Some F \<Longrightarrow> 8 dvd unat F"
  by (auto simp: linux_inet_fragment_size_def Let_def unat_and_minus_8 split: if_splits)

lemma frag_size_unat:
  fixes mtu ip_hlen :: "32 word" and mac_len :: "16 word"
  assumes room: "unat mac_len + unat ip_hlen \<le> unat mtu"
  shows "unat (mtu - ucast mac_len - ip_hlen) = unat mtu - unat mac_len - unat ip_hlen"
proof -
  have m: "unat (ucast mac_len :: 32 word) = unat mac_len" by (rule ucast16_32)
  have a: "unat (mtu - ucast mac_len) = unat mtu - unat mac_len"
    using room m by (simp add: unat_sub word_le_nat_alt)
  show ?thesis using room a by (simp add: unat_sub word_le_nat_alt)
qed

text \<open>
  Where the size meets the 64-byte rule. When the MAC and IP headers fit the MTU \<open>M\<close>,
  the payload \<open>P\<close> is larger than \<open>M\<close> and the first rounded size
  \<open>F0 = 8 * ((M - mac_len - ip_hlen) div 8)\<close> is at least 64, the computation returns
  a positive size and the last fragment has at least 64 bytes, provided that either
  \<open>F0\<close> already leaves a remainder of 0 or of at least 64 bytes (the size is kept), or
  the shrink step has room: \<open>8 * (P div F0) + 135 < F0\<close>, so that the bytes taken off the
  full fragments still fit into the last one.
\<close>

lemma linux_inet_fragment_size_long_tail:
  fixes mtu payload ip_hlen :: "32 word" and mac_len :: "16 word"
  defines "F0 \<equiv> 8 * ((unat mtu - unat mac_len - unat ip_hlen) div 8)"
  assumes room: "unat mac_len + unat ip_hlen \<le> unat mtu"
      and PM: "unat mtu < unat payload"
      and F64: "64 \<le> F0"
      and big: "0 < unat payload mod F0 \<and> unat payload mod F0 < 64
                  \<longrightarrow> 8 * (unat payload div F0) + 135 < F0"
  shows "\<exists>F. linux_inet_fragment_size payload (mtu - ucast mac_len - ip_hlen) = Some F
             \<and> 0 < unat F \<and> 64 \<le> last (segment_lengths (unat payload) (unat F))"
proof -
  define P where "P = unat payload"
  define w where "w = (mtu - ucast mac_len - ip_hlen) AND NOT 7"
  define rw where "rw = payload mod w"
  define nw where "nw = payload div w"
  have w: "unat w = F0"
    unfolding w_def F0_def by (simp only: unat_and_not_7 frag_size_unat [OF room])
  have F0pos: "0 < F0" using F64 by simp
  then have wnz: "w \<noteq> 0" using w by (metis not_less_zero unat_0)
  have "F0 \<le> unat mtu - unat mac_len - unat ip_hlen" unfolding F0_def by simp
  then have "F0 \<le> unat mtu" by simp
  then have F0P: "F0 \<le> P" using PM unfolding P_def by simp
  have n: "unat nw = P div F0" unfolding nw_def P_def by (simp only: unat_div w)
  have r: "unat rw = P mod F0" unfolding rw_def P_def by (simp only: unat_mod w)
  have npos: "0 < P div F0" using F0P F0pos by (simp add: div_greater_zero_iff)
  have def: "linux_inet_fragment_size payload (mtu - ucast mac_len - ip_hlen) =
      (if rw \<noteq> 0 \<and> rw < 64
       then (if nw = 0 then None else Some ((w - (64 - rw) div nw - 1) AND NOT 7))
       else Some w)"
    unfolding linux_inet_fragment_size_def Let_def w_def [symmetric] rw_def nw_def
    using wnz by (simp only: if_False)
  show ?thesis
  proof (cases "rw \<noteq> 0 \<and> rw < 64")
    case False
    then have res: "linux_inet_fragment_size payload (mtu - ucast mac_len - ip_hlen) = Some w"
      unfolding def by (simp only: if_False)
    have "unat (64 :: 32 word) = 64" by simp
    with False have "unat rw = 0 \<or> 64 \<le> unat rw"
      by (auto simp: word_less_nat_alt unat_eq_zero)
    then have "P mod F0 = 0 \<or> 64 \<le> P mod F0" unfolding r .
    then have "64 \<le> last (segment_lengths P F0)"
      using F0pos F0P F64 by (auto simp: segment_lengths_last)
    then show ?thesis unfolding res P_def using w F0pos by simp
  next
    case True
    have u64: "unat (64 :: 32 word) = 64" by simp
    from True have "0 < unat rw" and "unat rw < 64"
      using u64 by (simp_all add: word_less_nat_alt unat_gt_0)
    then have r0: "0 < P mod F0" and r64: "P mod F0 < 64"
      unfolding r by simp_all
    then have big': "8 * (P div F0) + 135 < F0" using big unfolding P_def by simp
    then have F135: "135 < F0" by simp
    have nnz: "nw \<noteq> 0" using n npos by (metis less_numeral_extra(3) unat_0)
    define Fw where "Fw = (w - (64 - rw) div nw - 1) AND NOT 7"
    have res: "linux_inet_fragment_size payload (mtu - ucast mac_len - ip_hlen) = Some Fw"
      unfolding def Fw_def using True nnz by (simp only: if_True if_False simp_thms)
    have a: "unat (64 - rw) = 64 - P mod F0"
      using r r64 u64 by (simp add: unat_sub word_le_nat_alt)
    have d: "unat ((64 - rw) div nw) = (64 - P mod F0) div (P div F0)"
      by (simp only: unat_div a n)
    have dle: "(64 - P mod F0) div (P div F0) \<le> 64"
      by (meson diff_le_self div_le_dividend le_trans)
    have b: "unat (w - (64 - rw) div nw) = F0 - (64 - P mod F0) div (P div F0)"
      using dle F135 w d by (simp add: unat_sub word_le_nat_alt)
    have c: "unat (w - (64 - rw) div nw - 1) = F0 - (64 - P mod F0) div (P div F0) - 1"
      using dle F135 b by (simp add: unat_sub word_le_nat_alt)
    have F: "unat Fw = 8 * ((F0 - (64 - P mod F0) div (P div F0) - 1) div 8)"
      unfolding Fw_def by (simp only: unat_and_not_7 c)
    have dv: "8 dvd F0" unfolding F0_def by simp
    from frag_shrink [of F0 "P div F0" P "P mod F0", OF dv refl refl npos r0 r64 big']
    have sh: "0 < unat Fw" "P div unat Fw = P div F0" "64 \<le> P mod unat Fw"
      unfolding F by simp_all
    have "unat Fw \<le> P" using sh(2) npos sh(1)
      by (metis div_greater_zero_iff)
    then have "last (segment_lengths P (unat Fw)) = P mod unat Fw"
      using sh by (auto simp: segment_lengths_last)
    then show ?thesis unfolding res P_def [symmetric] using sh by simp
  qed
qed

text \<open>
  Two packets on which the rule is met: 2948 payload bytes on a link of MTU 1500 (the
  remainder of 20 bytes at size 1448 becomes 68 bytes at size 1440), and 25000 payload
  bytes on a link of MTU 576 behind 46 header bytes (size 504 is kept, the last
  fragment has 304 bytes).
\<close>

lemma linux_inet_fragment_size_2948:
  "linux_inet_fragment_size 2948 (1500 - ucast (14 :: 16 word) - 20) = Some 1440
   \<and> segment_lengths 2948 1440 = [1440, 1440, 68]"
proof -
  have res: "linux_inet_fragment_size 2948 (1500 - ucast (14 :: 16 word) - 20) = Some 1440"
    by (simp add: linux_inet_fragment_size_def Let_def)
  have lens: "segment_lengths 2948 1440 = [1440, 1440, 68]"
    by (simp add: segment_lengths_def numeral_2_eq_2)
  show ?thesis using res lens by simp
qed

lemma linux_inet_fragment_size_25000:
  "linux_inet_fragment_size 25000 (576 - ucast (46 :: 16 word) - 20) = Some 504
   \<and> segment_lengths 25000 504 = replicate 49 504 @ [304]"
proof -
  have res: "linux_inet_fragment_size 25000 (576 - ucast (46 :: 16 word) - 20) = Some 504"
    by (simp add: linux_inet_fragment_size_def Let_def)
  have lens: "segment_lengths 25000 504 = replicate 49 504 @ [304]"
    by (simp add: segment_lengths_def)
  show ?thesis using res lens by simp
qed

subsection \<open>Batches of segments\<close>

lemma linux_xmit_segments_free_events:
  "linux_xmit_segments_free segs st = st\<lparr>tx_events := tx_events st @ map Kfree_skb segs\<rparr>"
  by (induction segs arbitrary: st) (simp_all add: kfree_skb_def)

lemma linux_xmit_segments_all_sent:
  "segs \<noteq> [] \<Longrightarrow> segments_sent K xmit vif segs type st = Some st' \<Longrightarrow>
   linux_xmit_segments K xmit vif segs type st = Inr (0, st')"
proof (induction segs arbitrary: st)
  case Nil
  then show ?case by simp
next
  case (Cons seg segs)
  from Cons.prems(2) obtain st1 where
    one: "linux_xmit_segment K xmit vif seg type st = Inr (0, st1)"
    and rest: "segments_sent K xmit vif segs type st1 = Some st'"
    by (auto split: sum.splits if_splits)
  show ?case
  proof (cases "segs = []")
    case True
    with one rest show ?thesis by simp
  next
    case False
    from Cons.IH [OF False rest] one False show ?thesis by simp
  qed
qed

lemma linux_xmit_segments_first_failure:
  "segments_sent K xmit vif pre type st = Some sta \<Longrightarrow>
   linux_xmit_segment K xmit vif seg type sta = Inr (err, stb) \<Longrightarrow> err \<noteq> 0 \<Longrightarrow>
   linux_xmit_segments K xmit vif (pre @ seg # post) type st =
     Inr (err, stb\<lparr>tx_events := tx_events stb @ map Kfree_skb post\<rparr>)"
proof (induction pre arbitrary: st)
  case Nil
  then show ?case by (simp add: linux_xmit_segments_free_events)
next
  case (Cons s pre)
  from Cons.prems(1) obtain st' where
    one: "linux_xmit_segment K xmit vif s type st = Inr (0, st')"
    and rest: "segments_sent K xmit vif pre type st' = Some sta"
    by (auto split: sum.splits if_splits)
  from Cons.IH [OF rest Cons.prems(2,3)] one show ?case by simp
qed

text \<open>
  C7. \<open>linux_xmit_segments\<close> hands the segments to \<open>linux_xmit_segment\<close> in list
  order. When every segment of a non-empty list returns 0, all are sent and 0 is
  returned. When the segments before \<open>seg\<close> return 0 and \<open>seg\<close> returns \<open>err \<noteq> 0\<close>, the
  result is \<open>err\<close>, the segments behind \<open>seg\<close> are freed, each once and in order, and
  nothing else changes: the events recorded up to the failure stay as they are.
\<close>

theorem linux_xmit_segments_outcome:
  "(segs \<noteq> [] \<and> segments_sent K xmit vif segs type st = Some st' \<longrightarrow>
      linux_xmit_segments K xmit vif segs type st = Inr (0, st'))
   \<and> (segments_sent K xmit vif pre type st = Some sta
      \<and> linux_xmit_segment K xmit vif seg type sta = Inr (err, stb) \<and> err \<noteq> 0 \<longrightarrow>
      linux_xmit_segments K xmit vif (pre @ seg # post) type st =
        Inr (err, stb\<lparr>tx_events := tx_events stb @ map Kfree_skb post\<rparr>))"
  using linux_xmit_segments_all_sent linux_xmit_segments_first_failure by blast

lemma linux_xmit_segment_small_ip:
  "skb_len s = 100 \<Longrightarrow> skb_dev s = eth0 \<Longrightarrow>
   linux_xmit_segment K0 (linux_xmit (Suc 0) K0) vif_phys s VP_TYPE_IP st =
     Inr (dev_queue_xmit K0 s, st\<lparr>tx_events := tx_events st @ [Dev_queue_xmit s]\<rparr>)"
  by (simp add: linux_xmit_segment_def eth0_def Let_def)

theorem linux_xmit_segments_outcome_witness: "linux_xmit_segments K0 (linux_xmit (Suc 0) K0) vif_phys [seg_a, seg_b, seg_c] VP_TYPE_IP st0
     = Inr (1, \<lparr>tx_events = [Dev_queue_xmit seg_a, Dev_queue_xmit seg_b, Kfree_skb seg_c],
                ip_ids_drawn = 0\<rparr>)
   \<and> linux_xmit_segments K0 (linux_xmit (Suc 0) K0) vif_phys [seg_a, seg_c] VP_TYPE_IP st0
     = Inr (0, \<lparr>tx_events = [Dev_queue_xmit seg_a, Dev_queue_xmit seg_c], ip_ids_drawn = 0\<rparr>)"
proof -
  have a: "linux_xmit_segment K0 (linux_xmit (Suc 0) K0) vif_phys seg_a VP_TYPE_IP st =
     Inr (0, st\<lparr>tx_events := tx_events st @ [Dev_queue_xmit seg_a]\<rparr>)" for st
  proof -
    have "dev_queue_xmit K0 seg_a = 0" by (simp add: K0_def seg_a_def)
    moreover have "skb_len seg_a = 100" "skb_dev seg_a = eth0"
      by (simp_all add: seg_a_def skb0_def)
    ultimately show ?thesis by (simp add: linux_xmit_segment_small_ip)
  qed
  have b: "linux_xmit_segment K0 (linux_xmit (Suc 0) K0) vif_phys seg_b VP_TYPE_IP st =
     Inr (1, st\<lparr>tx_events := tx_events st @ [Dev_queue_xmit seg_b]\<rparr>)" for st
  proof -
    have "dev_queue_xmit K0 seg_b = 1" by (simp add: K0_def seg_b_def)
    moreover have "skb_len seg_b = 100" "skb_dev seg_b = eth0"
      by (simp_all add: seg_b_def skb0_def)
    ultimately show ?thesis by (simp add: linux_xmit_segment_small_ip)
  qed
  have c: "linux_xmit_segment K0 (linux_xmit (Suc 0) K0) vif_phys seg_c VP_TYPE_IP st =
     Inr (0, st\<lparr>tx_events := tx_events st @ [Dev_queue_xmit seg_c]\<rparr>)" for st
  proof -
    have "dev_queue_xmit K0 seg_c = 0" by (simp add: K0_def seg_c_def)
    moreover have "skb_len seg_c = 100" "skb_dev seg_c = eth0"
      by (simp_all add: seg_c_def skb0_def)
    ultimately show ?thesis by (simp add: linux_xmit_segment_small_ip)
  qed
  show ?thesis
    using linux_xmit_segments_outcome
        [where K = K0 and xmit = "linux_xmit (Suc 0) K0" and vif = vif_phys and type = VP_TYPE_IP
           and st = st0 and segs = "[seg_a, seg_c]"
           and st' = "\<lparr>tx_events = [Dev_queue_xmit seg_a, Dev_queue_xmit seg_c], ip_ids_drawn = 0\<rparr>"
           and pre = "[seg_a]" and seg = seg_b and post = "[seg_c]" and err = 1
           and sta = "\<lparr>tx_events = [Dev_queue_xmit seg_a], ip_ids_drawn = 0\<rparr>"
           and stb = "\<lparr>tx_events = [Dev_queue_xmit seg_a, Dev_queue_xmit seg_b], ip_ids_drawn = 0\<rparr>"]
    by (simp add: a b c st0_def)
qed

subsection \<open>The finalizer\<close>








subsection \<open>The fragmenter's failure paths\<close>

lemma linux_inet_fragment_size_3000: "linux_inet_fragment_size 3000 1466 = Some 1464"
  by (simp add: linux_inet_fragment_size_def Let_def)

lemma linux_inet_fragment_pkt_3000:
  "linux_inet_fragment K0 xmit vif_phys pkt_3000 VP_TYPE_IP st0 = Inr (- ENOMEM, st0)"
  by (simp add: linux_inet_fragment_def pkt_3000_def skb0_def ip_hdr_def hdr0_def eth0_def
      linux_inet_fragment_size_3000 Let_def K0_def st0_def)

text \<open>
  The callers do not free the packet either: \<open>linux_xmit\<close> and \<open>linux_xmit_segment\<close>
  pass the error of the fragmenter on and leave the state as it was.
\<close>

lemma linux_xmit_segment_pkt_3000:
  "linux_xmit_segment K0 (linux_xmit (Suc 0) K0) vif_phys pkt_3000 VP_TYPE_IP st0
     = Inr (- ENOMEM, st0)"
proof -
  have x: "linux_xmit (Suc 0) K0 vif_phys pkt_3000 VP_TYPE_IP st0
      = linux_inet_fragment K0 (linux_xmit 0 K0) vif_phys pkt_3000 VP_TYPE_IP st0"
    by (simp add: pkt_3000_def skb0_def eth0_def vif_phys_def Let_def ntohs_htons)
  have s: "linux_xmit_segment K0 (linux_xmit (Suc 0) K0) vif_phys pkt_3000 VP_TYPE_IP st0
      = linux_xmit (Suc 0) K0 vif_phys pkt_3000 VP_TYPE_IP st0"
    by (simp add: linux_xmit_segment_def)
  show ?thesis
    unfolding s x by (rule linux_inet_fragment_pkt_3000)
qed

text \<open>
  C5, the code at a failing input. A packet of 3000 payload bytes on a link of MTU 1500,
  with \<open>skb_segment\<close> failing with \<open>-ENOMEM\<close>: \<open>linux_inet_fragment\<close> returns \<open>-ENOMEM\<close>
  and transmits nothing, but it leaves the state as it was: no \<open>kfree_skb\<close> is
  recorded, the packet is never freed.
\<close>

theorem linux_inet_fragment_leaks_on_segment_failure:
  "skb_segment K0 (skb_pull (pkt_3000\<lparr>skb_gso_size := 1464\<rparr>) 34) 0 = Inl (- ENOMEM)
   \<and> linux_inet_fragment K0 xmit_recorder vif_phys pkt_3000 VP_TYPE_IP st0 = Inr (- ENOMEM, st0)
   \<and> tx_events st0 = []"
  by (simp add: linux_inet_fragment_pkt_3000) (simp add: K0_def st0_def)

text \<open>
  C6, the code at a failing input. The same packet with \<open>CHECKSUM_PARTIAL\<close> set and
  \<open>skb_checksum_help\<close> failing with \<open>-EINVAL\<close>: \<open>linux_inet_fragment\<close> frees the packet and
  returns 0, the value its callers take for success.
\<close>

theorem linux_inet_fragment_success_on_checksum_failure:
  "skb_checksum_help K_csum_fails (pkt_csum\<lparr>skb_gso_size := 0\<rparr>)
     = (- 22, pkt_csum\<lparr>skb_gso_size := 0\<rparr>)
   \<and> linux_inet_fragment K_csum_fails xmit_recorder vif_phys pkt_csum VP_TYPE_IP st0
     = Inr (0, st0\<lparr>tx_events := [Kfree_skb (pkt_csum\<lparr>skb_gso_size := 0\<rparr>)]\<rparr>)"
  by (simp add: linux_inet_fragment_def pkt_csum_def skb0_def ip_hdr_def hdr0_def eth0_def
      linux_inet_fragment_size_3000 Let_def K_csum_fails_def K0_def st0_def kfree_skb_def)

subsection \<open>The headers of the fragments\<close>

lemma IP_consts: "IP_MF = push_bit 13 1" "IP_OFFSET = mask 13"
  by (simp_all add: IP_MF_def IP_OFFSET_def mask_eq_exp_minus_1)

lemma bit_8192: "bit (8192 :: 16 word) n \<longleftrightarrow> n = 13"
proof -
  have "(8192 :: 16 word) = 2 ^ 13" by simp
  then have "bit (8192 :: 16 word) n \<longleftrightarrow> bit (2 ^ 13 :: 16 word) n" by (simp only:)
  also have "\<dots> \<longleftrightarrow> n = 13" by (simp only: bit_exp_iff) (auto simp: possible_bit_word)
  finally show ?thesis .
qed

lemma frag_field_bits:
  fixes f :: "16 word"
  assumes "unat f < 8192"
  shows "f AND IP_MF = 0" and "f AND IP_OFFSET = f"
    and "(f OR IP_MF) AND IP_OFFSET = f" and "(f OR IP_MF) AND IP_MF \<noteq> 0"
proof -
  have "f < 2 ^ 13" using assms by (simp add: word_less_nat_alt)
  then have m: "f AND mask 13 = f" by (rule less_mask_eq)
  then show o: "f AND IP_OFFSET = f" by (simp add: IP_consts)
  have nb: "\<not> bit f 13"
  proof
    assume "bit f 13"
    then have "bit (f AND mask 13) 13" by (simp only: m)
    then show False by (simp add: bit_simps)
  qed
  show z: "f AND IP_MF = 0"
  proof (rule bit_word_eqI)
    fix n
    have "bit IP_MF n \<longleftrightarrow> n = 13" unfolding IP_MF_def by (rule bit_8192)
    then show "bit (f AND IP_MF) n \<longleftrightarrow> bit (0 :: 16 word) n"
      using nb by (auto simp: bit_and_iff)
  qed
  show "(f OR IP_MF) AND IP_OFFSET = f"
  proof -
    have "(f OR IP_MF) AND IP_OFFSET = (f AND IP_OFFSET) OR (IP_MF AND IP_OFFSET)"
      by (simp add: bit.conj_disj_distrib2)
    also have "IP_MF AND IP_OFFSET = 0" by (simp add: IP_MF_def IP_OFFSET_def)
    finally show ?thesis by (simp add: o)
  qed
  show "(f OR IP_MF) AND IP_MF \<noteq> 0"
  proof
    assume "(f OR IP_MF) AND IP_MF = 0"
    then have "bit ((f OR IP_MF) AND IP_MF) 13 = bit (0 :: 16 word) 13" by simp
    then show False by (simp add: IP_MF_def bit_simps bit_8192)
  qed
qed


lemma linux_inet_fragment_stamp_fields:
  "skb_len (linux_inet_fragment_stamp K id' mf off s) = skb_len s"
  "skb_mac_len (linux_inet_fragment_stamp K id' mf off s) = skb_mac_len s"
  "skb_network_header (linux_inet_fragment_stamp K id' mf off s) = skb_network_header s"
  by (simp_all add: linux_inet_fragment_stamp_def Let_def set_ip_at_def)

lemma linux_inet_fragment_stamp_hdr:
  "ip_hdr (linux_inet_fragment_stamp K id' mf off s) =
     (ip_hdr s)\<lparr>ip_id := htons id',
               ip_frag_off := (if mf then htons (ucast (drop_bit 3 off)) OR htons IP_MF
                               else htons (ucast (drop_bit 3 off))),
               ip_len := htons (ucast (skb_len s - ucast (skb_mac_len s))),
               ip_csum := ip_fast_csum K
                 ((ip_hdr s)\<lparr>ip_id := htons id',
                    ip_frag_off := (if mf then htons (ucast (drop_bit 3 off)) OR htons IP_MF
                                    else htons (ucast (drop_bit 3 off))),
                    ip_len := htons (ucast (skb_len s - ucast (skb_mac_len s))),
                    ip_csum := 0\<rparr>)\<rparr>"
  by (simp add: linux_inet_fragment_stamp_def Let_def set_ip_at_def ip_hdr_def)

lemma linux_inet_fragment_loop_length [simp]: "length (linux_inet_fragment_loop K id' fr off segs) = length segs"
  by (induction segs arbitrary: off) simp_all

lemma linux_inet_fragment_loop_nth:
  "i < length segs \<Longrightarrow>
   linux_inet_fragment_loop K id' fr off segs ! i =
     linux_inet_fragment_stamp K id' (i + 1 < length segs \<or> fr)
       (off + sum_list (map linux_inet_fragment_advance (take i segs))) (segs ! i)"
proof (induction segs arbitrary: off i)
  case Nil
  then show ?case by simp
next
  case (Cons s segs)
  show ?case
  proof (cases i)
    case 0
    then show ?thesis by (cases segs) simp_all
  next
    case (Suc j)
    with Cons.prems have "j < length segs" by simp
    from Cons.IH [OF this] Suc show ?thesis by (simp add: add.assoc)
  qed
qed

lemma ucast4_32: "unat (ucast (w :: 4 word) * 4 :: 32 word) = 4 * unat w"
proof -
  have "unat w < 2 ^ 4" using unsigned_less [of w] by simp
  then have b: "unat w < 16" by simp
  then have "unat (ucast w :: 32 word) = unat w"
    by (simp add: unsigned_ucast_eq take_bit_nat_eq_self)
  then show ?thesis using b by (simp add: unat_word_ariths)
qed

lemma linux_inet_fragment_advance_unat:
  assumes "unat (skb_mac_len s) + 4 * unat (ip_hl (ip_hdr s)) \<le> unat (skb_len s)"
  shows "unat (linux_inet_fragment_advance s) = frag_payload s"
proof -
  have a: "unat (skb_len s - ucast (skb_mac_len s)) = unat (skb_len s) - unat (skb_mac_len s)"
    using assms by (simp add: unat_sub word_le_nat_alt ucast16_32)
  show ?thesis
    unfolding linux_inet_fragment_advance_def frag_payload_def
    using assms a by (simp add: unat_sub word_le_nat_alt ucast4_32)
qed

lemma linux_inet_fragment_advance_sum:
  assumes "\<forall>s \<in> set xs. unat (skb_mac_len s) + 4 * unat (ip_hl (ip_hdr s)) \<le> unat (skb_len s)"
      and "unat off + sum_list (map frag_payload xs) < 2 ^ 32"
  shows "unat (off + sum_list (map linux_inet_fragment_advance xs))
           = unat off + sum_list (map frag_payload xs)"
  using assms
proof (induction xs arbitrary: off)
  case Nil
  then show ?case by simp
next
  case (Cons x xs)
  have ax: "unat (linux_inet_fragment_advance x) = frag_payload x"
    using Cons.prems(1) by (simp add: linux_inet_fragment_advance_unat)
  have "unat off + frag_payload x < 2 ^ 32" using Cons.prems(2) by simp
  then have s: "unat (off + linux_inet_fragment_advance x) = unat off + frag_payload x"
    using ax by (simp add: unat_word_ariths)
  have "unat ((off + linux_inet_fragment_advance x) + sum_list (map linux_inet_fragment_advance xs))
      = unat (off + linux_inet_fragment_advance x) + sum_list (map frag_payload xs)"
    using Cons.prems s by (intro Cons.IH) simp_all
  then show ?case using s by (simp add: add.assoc)
qed

lemma offset_field:
  fixes x :: "32 word"
  assumes "unat x < 65536"
  shows "unat (ucast (drop_bit 3 x) :: 16 word) = unat x div 8"
proof -
  have "unat (drop_bit 3 x) = drop_bit 3 (unat x)" by (rule unat_drop_bit_eq)
  then have d: "unat (drop_bit 3 x) = unat x div 8" by (simp only: drop_bit_eq_div) simp
  then have "unat (drop_bit 3 x) < 65536" using assms by simp
  then show ?thesis using d by (simp add: ucast32_16)
qed

lemma initial_offset:
  fixes y :: "16 word"
  shows "unat (push_bit 3 (ucast (y AND IP_OFFSET)) :: 32 word) = 8 * unat (y AND IP_OFFSET)"
    and "unat (y AND IP_OFFSET) < 8192"
proof -
  have "y AND IP_OFFSET \<le> IP_OFFSET" by (rule word_and_le1)
  then show b: "unat (y AND IP_OFFSET) < 8192"
    by (simp add: word_le_nat_alt IP_OFFSET_def)
  have "unat (push_bit 3 (ucast (y AND IP_OFFSET)) :: 32 word)
      = take_bit 32 (push_bit 3 (unat (ucast (y AND IP_OFFSET) :: 32 word)))"
    using unsigned_push_bit_eq [of 3 "ucast (y AND IP_OFFSET) :: 32 word", where ?'a = nat] by simp
  also have "\<dots> = take_bit 32 (8 * unat (y AND IP_OFFSET))"
    by (simp add: ucast16_32 push_bit_eq_mult mult.commute)
  also have "\<dots> = 8 * unat (y AND IP_OFFSET)"
    using b by (intro take_bit_nat_eq_self) simp
  finally show "unat (push_bit 3 (ucast (y AND IP_OFFSET)) :: 32 word) = 8 * unat (y AND IP_OFFSET)" .
qed


lemma linux_inet_fragment_stamp_payload:
  "frag_payload (linux_inet_fragment_stamp K id' mf off s) = frag_payload s"
  by (simp add: frag_payload_def linux_inet_fragment_stamp_fields linux_inet_fragment_stamp_hdr)

lemma take_subset_butlast:
  assumes "j < length xs"
  shows "set (take j xs) \<subseteq> set (butlast xs)"
proof -
  have "take j xs = take j (butlast xs)" using assms by (simp add: take_butlast)
  then show ?thesis by (metis set_take_subset)
qed

lemma sum_take_le:
  fixes f :: "'a \<Rightarrow> nat"
  shows "sum_list (map f (take j xs)) \<le> sum_list (map f xs)"
proof -
  have "sum_list (map f xs) = sum_list (map f (take j xs)) + sum_list (map f (drop j xs))"
    by (metis append_take_drop_id map_append sum_list_append)
  then show ?thesis by simp
qed

lemma dvd_sum_list_map:
  fixes f :: "'a \<Rightarrow> nat"
  shows "\<forall>x \<in> set xs. d dvd f x \<Longrightarrow> d dvd sum_list (map f xs)"
  by (induction xs) simp_all

lemma linux_inet_fragment_loop_header:
  fixes ip :: vr_ip and K :: kernel
  assumes wf: "\<forall>s \<in> set segs. unat (skb_mac_len s) + 4 * unat (ip_hl (ip_hdr s)) \<le> unat (skb_len s)
                  \<and> unat (skb_len s) - unat (skb_mac_len s) < 65536"
      and al: "\<forall>s \<in> set (butlast segs). 8 dvd frag_payload s \<and> 0 < frag_payload s"
      and fit: "ip_fragment_offset ip + sum_list (map frag_payload segs) < 65536"
      and j: "j < length segs"
  defines "out \<equiv> linux_inet_fragment_loop K (ntohs (ip_id ip))
                    (ntohs (ip_frag_off ip) AND IP_MF \<noteq> 0)
                    (push_bit 3 (ucast (ntohs (ip_frag_off ip) AND IP_OFFSET))) segs"
  shows "ip_id (ip_hdr (out ! j)) = ip_id ip"
    and "ip_more_fragments (ip_hdr (out ! j)) \<longleftrightarrow> j + 1 < length segs \<or> ip_more_fragments ip"
    and "ip_fragment_offset (ip_hdr (out ! j))
           = ip_fragment_offset ip + sum_list (map frag_payload (take j segs))"
    and "unat (ntohs (ip_len (ip_hdr (out ! j))))
           = unat (skb_len (out ! j)) - unat (skb_mac_len (out ! j))"
    and "ip_csum (ip_hdr (out ! j)) = ip_fast_csum K ((ip_hdr (out ! j))\<lparr>ip_csum := 0\<rparr>)"
    and "frag_payload (out ! j) = frag_payload (segs ! j)"
proof -
  define off0 :: "32 word" where "off0 = push_bit 3 (ucast (ntohs (ip_frag_off ip) AND IP_OFFSET))"
  define offj where "offj = off0 + sum_list (map linux_inet_fragment_advance (take j segs))"
  define N where "N = ip_fragment_offset ip + sum_list (map frag_payload (take j segs))"
  define f :: "16 word" where "f = ucast (drop_bit 3 offj)"
  have o0: "unat off0 = ip_fragment_offset ip"
    unfolding off0_def ip_fragment_offset_def by (rule initial_offset(1))
  have Nle: "N < 65536"
    unfolding N_def using fit sum_take_le [of frag_payload j segs] by linarith
  have wfj: "\<forall>s \<in> set (take j segs). unat (skb_mac_len s) + 4 * unat (ip_hl (ip_hdr s)) \<le> unat (skb_len s)"
    using wf by (meson in_set_takeD)
  have uo: "unat offj = N"
    unfolding offj_def N_def o0 [symmetric]
  proof (rule linux_inet_fragment_advance_sum [OF wfj])
    show "unat off0 + sum_list (map frag_payload (take j segs)) < 2 ^ 32"
      using Nle unfolding N_def o0 by simp
  qed
  have "\<forall>s \<in> set (take j segs). 8 dvd frag_payload s"
    using al take_subset_butlast [OF j] by blast
  then have "8 dvd sum_list (map frag_payload (take j segs))"
    by (rule dvd_sum_list_map)
  then have dv: "8 dvd N"
    unfolding N_def ip_fragment_offset_def by simp
  have uf: "unat f = N div 8"
    unfolding f_def using Nle uo by (simp add: offset_field)
  then have f8: "unat f < 8192" using Nle by simp
  have out: "out ! j = linux_inet_fragment_stamp K (ntohs (ip_id ip)) (j + 1 < length segs \<or> ip_more_fragments ip) offj (segs ! j)"
    unfolding out_def offj_def off0_def ip_more_fragments_def by (rule linux_inet_fragment_loop_nth [OF j])
  show "ip_id (ip_hdr (out ! j)) = ip_id ip"
    by (simp add: out linux_inet_fragment_stamp_hdr htons_ntohs)
  have fo: "ntohs (ip_frag_off (ip_hdr (out ! j)))
      = (if j + 1 < length segs \<or> ip_more_fragments ip then f OR IP_MF else f)"
    by (simp add: out linux_inet_fragment_stamp_hdr f_def ntohs_or ntohs_htons)
  show "ip_more_fragments (ip_hdr (out ! j)) \<longleftrightarrow> j + 1 < length segs \<or> ip_more_fragments ip"
    unfolding ip_more_fragments_def [of "ip_hdr (out ! j)"] fo
    using frag_field_bits(1,4) [OF f8] by simp
  have "ip_fragment_offset (ip_hdr (out ! j)) = 8 * unat f"
    unfolding ip_fragment_offset_def [of "ip_hdr (out ! j)"] fo
    using frag_field_bits(2,3) [OF f8] by simp
  then show "ip_fragment_offset (ip_hdr (out ! j))
           = ip_fragment_offset ip + sum_list (map frag_payload (take j segs))"
    using uf dv unfolding N_def by simp
  have sj: "segs ! j \<in> set segs" using j by simp
  with wf have w1: "unat (skb_mac_len (segs ! j)) \<le> unat (skb_len (segs ! j))"
    and w2: "unat (skb_len (segs ! j)) - unat (skb_mac_len (segs ! j)) < 65536"
    by fastforce+
  have "unat (skb_len (segs ! j) - ucast (skb_mac_len (segs ! j)))
      = unat (skb_len (segs ! j)) - unat (skb_mac_len (segs ! j))"
    using w1 by (simp add: unat_sub word_le_nat_alt ucast16_32)
  with w2 show "unat (ntohs (ip_len (ip_hdr (out ! j))))
           = unat (skb_len (out ! j)) - unat (skb_mac_len (out ! j))"
    by (simp add: out linux_inet_fragment_stamp_hdr linux_inet_fragment_stamp_fields ntohs_htons ucast32_16)
  show "ip_csum (ip_hdr (out ! j)) = ip_fast_csum K ((ip_hdr (out ! j))\<lparr>ip_csum := 0\<rparr>)"
    by (simp add: out linux_inet_fragment_stamp_hdr)
  show "frag_payload (out ! j) = frag_payload (segs ! j)"
    by (simp add: out linux_inet_fragment_stamp_payload)
qed

text \<open>
  C2, as amended. Let the segments be as generic segmentation yields them: each holds
  its MAC and IP headers, its length less the MAC header fits 16 bits, every segment
  but the last carries a positive number of payload bytes that is a multiple of 8, and
  the offset of the original plus all payload bytes stays below \<open>2^16\<close>. Then, after
  the loop of \<open>linux_inet_fragment\<close>, every fragment carries the identifier of the
  original packet; its "more fragments" flag is set exactly when it is not the last
  fragment or the original packet had the flag set; the first fragment has the offset of
  the original packet and every later one the offset of its predecessor plus the
  predecessor's payload length, which is strictly more; its total-length field is its
  length less the MAC header length; and its checksum field is \<open>ip_fast_csum\<close> of the
  header as written, taken with the checksum field zero.
\<close>

theorem linux_inet_fragment_headers:
  fixes ip :: vr_ip and K :: kernel
  assumes wf: "\<forall>s \<in> set segs. unat (skb_mac_len s) + 4 * unat (ip_hl (ip_hdr s)) \<le> unat (skb_len s)
                  \<and> unat (skb_len s) - unat (skb_mac_len s) < 65536"
      and al: "\<forall>s \<in> set (butlast segs). 8 dvd frag_payload s \<and> 0 < frag_payload s"
      and fit: "ip_fragment_offset ip + sum_list (map frag_payload segs) < 65536"
      and i: "i < length segs"
  shows "let out = linux_inet_fragment_loop K (ntohs (ip_id ip))
                     (ntohs (ip_frag_off ip) AND IP_MF \<noteq> 0)
                     (push_bit 3 (ucast (ntohs (ip_frag_off ip) AND IP_OFFSET))) segs
         in length out = length segs
          \<and> ip_id (ip_hdr (out ! i)) = ip_id ip
          \<and> (ip_more_fragments (ip_hdr (out ! i)) \<longleftrightarrow> i + 1 < length segs \<or> ip_more_fragments ip)
          \<and> (if i = 0 then ip_fragment_offset (ip_hdr (out ! i)) = ip_fragment_offset ip
              else ip_fragment_offset (ip_hdr (out ! i))
                     = ip_fragment_offset (ip_hdr (out ! (i - 1))) + frag_payload (out ! (i - 1))
                   \<and> ip_fragment_offset (ip_hdr (out ! (i - 1)))
                     < ip_fragment_offset (ip_hdr (out ! i)))
          \<and> unat (ntohs (ip_len (ip_hdr (out ! i))))
              = unat (skb_len (out ! i)) - unat (skb_mac_len (out ! i))
          \<and> ip_csum (ip_hdr (out ! i)) = ip_fast_csum K ((ip_hdr (out ! i))\<lparr>ip_csum := 0\<rparr>)"
proof -
  define out where "out = linux_inet_fragment_loop K (ntohs (ip_id ip))
                     (ntohs (ip_frag_off ip) AND IP_MF \<noteq> 0)
                     (push_bit 3 (ucast (ntohs (ip_frag_off ip) AND IP_OFFSET))) segs"
  note h = linux_inet_fragment_loop_header [OF wf al fit, of _ K, folded out_def]
  have off: "if i = 0 then ip_fragment_offset (ip_hdr (out ! i)) = ip_fragment_offset ip
      else ip_fragment_offset (ip_hdr (out ! i))
             = ip_fragment_offset (ip_hdr (out ! (i - 1))) + frag_payload (out ! (i - 1))
           \<and> ip_fragment_offset (ip_hdr (out ! (i - 1))) < ip_fragment_offset (ip_hdr (out ! i))"
  proof (cases i)
    case 0
    then show ?thesis using h(3) [OF i] by simp
  next
    case (Suc j)
    then have j: "j < length segs" and jl: "j < length (butlast segs)" using i by simp_all
    have t: "take (Suc j) segs = take j segs @ [segs ! j]"
      using j by (rule take_Suc_conv_app_nth)
    have "segs ! j \<in> set (butlast segs)"
      using jl by (metis nth_butlast nth_mem)
    then have pos: "0 < frag_payload (segs ! j)" using al by blast
    show ?thesis
      using h(3) [OF i] h(3) [OF j] h(6) [OF j] pos Suc by (simp add: t)
  qed
  show ?thesis
    unfolding Let_def out_def [symmetric]
    using h(1,2,4,5) [OF i] off by (simp add: out_def)
qed

lemma frag_fixture_fields:
  "frag_payload frag_full = 1464" "frag_payload frag_tail = 72"
  "unat (skb_len frag_full) = 1498" "unat (skb_len frag_tail) = 106"
  "unat (skb_mac_len frag_full) = 14" "unat (skb_mac_len frag_tail) = 14"
  "unat (ip_hl (ip_hdr frag_full)) = 5" "unat (ip_hl (ip_hdr frag_tail)) = 5"
  by (simp_all add: frag_payload_def frag_full_def frag_tail_def skb0_def ip_hdr_def hdr0_def)

lemma ip_fixture_fields:
  "ip_fragment_offset ip_whole = 0" "\<not> ip_more_fragments ip_whole"
  "ip_fragment_offset ip_last_fragment = 128" "\<not> ip_more_fragments ip_last_fragment"
  by (simp_all add: ip_fragment_offset_def ip_more_fragments_def ip_whole_def ip_last_fragment_def
      hdr0_def ntohs_htons IP_OFFSET_def IP_MF_def) (simp_all add: ntohs_def)

theorem linux_inet_fragment_headers_witness:
  "(let out = linux_inet_fragment_loop K0 (ntohs (ip_id ip_whole))
                (ntohs (ip_frag_off ip_whole) AND IP_MF \<noteq> 0)
                (push_bit 3 (ucast (ntohs (ip_frag_off ip_whole) AND IP_OFFSET)))
                [frag_full, frag_full, frag_tail]
    in ip_id (ip_hdr (out ! 1)) = htons 0x1234
     \<and> ip_more_fragments (ip_hdr (out ! 1))
     \<and> ip_fragment_offset (ip_hdr (out ! 1)) = ip_fragment_offset (ip_hdr (out ! 0)) + frag_payload (out ! 0)
     \<and> ip_fragment_offset (ip_hdr (out ! 0)) < ip_fragment_offset (ip_hdr (out ! 1))
     \<and> ip_id (ip_hdr (out ! 2)) = htons 0x1234
     \<and> \<not> ip_more_fragments (ip_hdr (out ! 2))
     \<and> unat (ntohs (ip_len (ip_hdr (out ! 2)))) = 92)"
proof -
  define out where "out = linux_inet_fragment_loop K0 (ntohs (ip_id ip_whole))
                (ntohs (ip_frag_off ip_whole) AND IP_MF \<noteq> 0)
                (push_bit 3 (ucast (ntohs (ip_frag_off ip_whole) AND IP_OFFSET)))
                [frag_full, frag_full, frag_tail]"
  have wf: "\<forall>s \<in> set [frag_full, frag_full, frag_tail].
      unat (skb_mac_len s) + 4 * unat (ip_hl (ip_hdr s)) \<le> unat (skb_len s)
      \<and> unat (skb_len s) - unat (skb_mac_len s) < 65536"
    by (simp add: frag_fixture_fields)
  have al: "\<forall>s \<in> set (butlast [frag_full, frag_full, frag_tail]). 8 dvd frag_payload s \<and> 0 < frag_payload s"
    by (simp add: frag_fixture_fields)
  have fit: "ip_fragment_offset ip_whole + sum_list (map frag_payload [frag_full, frag_full, frag_tail]) < 65536"
    by (simp add: frag_fixture_fields ip_fixture_fields)
  have i: "1 < length [frag_full, frag_full, frag_tail]" "2 < length [frag_full, frag_full, frag_tail]"
    by simp_all
  have id: "ip_id ip_whole = htons 0x1234" by (simp add: ip_whole_def)
  have "skb_len (out ! 2) = skb_len frag_tail" "skb_mac_len (out ! 2) = skb_mac_len frag_tail"
    unfolding out_def by (simp_all add: linux_inet_fragment_loop_nth linux_inet_fragment_stamp_fields del: linux_inet_fragment_loop.simps)
  then have l: "unat (skb_len (out ! 2)) - unat (skb_mac_len (out ! 2)) = 92"
    by (simp add: frag_fixture_fields)
  note a = linux_inet_fragment_headers [OF wf al fit i(1), of K0, unfolded Let_def, folded out_def]
  note b = linux_inet_fragment_headers [OF wf al fit i(2), of K0, unfolded Let_def, folded out_def]
  show ?thesis
    unfolding Let_def out_def [symmetric]
    using a b l by (simp add: id ip_fixture_fields)
qed

text \<open>
  C2 as stated fails where the original packet is a fragment without the "more
  fragments" flag, the last fragment of an earlier fragmentation (here at offset 128):
  the last of its pieces, at offset 1592, has the flag clear.
\<close>

theorem linux_inet_fragment_last_of_last_fragment:
  "ip_fragment_offset ip_last_fragment = 128
   \<and> \<not> ip_more_fragments
         (ip_hdr (linux_inet_fragment_loop K0 (ntohs (ip_id ip_last_fragment))
                    (ntohs (ip_frag_off ip_last_fragment) AND IP_MF \<noteq> 0)
                    (push_bit 3 (ucast (ntohs (ip_frag_off ip_last_fragment) AND IP_OFFSET)))
                    [frag_full, frag_tail] ! 1))
   \<and> ip_fragment_offset
         (ip_hdr (linux_inet_fragment_loop K0 (ntohs (ip_id ip_last_fragment))
                    (ntohs (ip_frag_off ip_last_fragment) AND IP_MF \<noteq> 0)
                    (push_bit 3 (ucast (ntohs (ip_frag_off ip_last_fragment) AND IP_OFFSET)))
                    [frag_full, frag_tail] ! 1)) = 1592"
proof -
  have a: "ntohs (ip_frag_off ip_last_fragment) = 0x0010"
    by (simp add: ip_last_fragment_def ntohs_htons)
  have b: "(0x0010 :: 16 word) AND IP_MF = 0" "(0x0010 :: 16 word) AND IP_OFFSET = 0x0010"
    by (simp_all add: IP_MF_def IP_OFFSET_def)
  have c: "linux_inet_fragment_advance frag_full = 1464"
    by (simp add: linux_inet_fragment_advance_def frag_full_def skb0_def ip_hdr_def hdr0_def)
  have out: "linux_inet_fragment_loop K0 (ntohs (ip_id ip_last_fragment))
                    (ntohs (ip_frag_off ip_last_fragment) AND IP_MF \<noteq> 0)
                    (push_bit 3 (ucast (ntohs (ip_frag_off ip_last_fragment) AND IP_OFFSET)))
                    [frag_full, frag_tail] ! 1
      = linux_inet_fragment_stamp K0 (ntohs (ip_id ip_last_fragment)) False 1592 frag_tail"
    unfolding a b by (simp add: c)
  have f: "ntohs (ip_frag_off (ip_hdr (linux_inet_fragment_stamp K0 id' False 1592 frag_tail))) = 199"
    for id'
    by (simp add: linux_inet_fragment_stamp_hdr ntohs_htons)
  show ?thesis
    unfolding out ip_more_fragments_def [of "ip_hdr _"] ip_fragment_offset_def [of "ip_hdr _"] f
    by (simp add: ip_fixture_fields IP_MF_def IP_OFFSET_def)
qed

subsection \<open>From a packet to its fragments on the wire\<close>

text \<open>
  Segments that are not tunnel packets and fit the link go straight to the device, one
  after the other.
\<close>

lemma linux_xmit_segment_direct:
  assumes "type \<noteq> VP_TYPE_IPOIP"
      and "skb_len s \<le> dev_mtu (skb_dev s) + ucast (dev_hard_header_len (skb_dev s))"
  shows "linux_xmit_segment K (linux_xmit (Suc n) K) vif s type st =
           Inr (dev_queue_xmit K s, st\<lparr>tx_events := tx_events st @ [Dev_queue_xmit s]\<rparr>)"
  using assms by (simp add: linux_xmit_segment_def Let_def)


lemma linux_xmit_segments_direct:
  assumes "type \<noteq> VP_TYPE_IPOIP" and "segs \<noteq> []"
      and "\<forall>s \<in> set segs. skb_len s \<le> dev_mtu (skb_dev s) + ucast (dev_hard_header_len (skb_dev s))
                           \<and> dev_queue_xmit K s = 0"
  shows "linux_xmit_segments K (linux_xmit (Suc n) K) vif segs type st =
           Inr (0, st\<lparr>tx_events := tx_events st @ map Dev_queue_xmit segs\<rparr>)"
  using assms(2,3)
proof (induction segs arbitrary: st)
  case Nil
  then show ?case by simp
next
  case (Cons s segs)
  have one: "linux_xmit_segment K (linux_xmit (Suc n) K) vif s type st =
           Inr (0, st\<lparr>tx_events := tx_events st @ [Dev_queue_xmit s]\<rparr>)"
    using linux_xmit_segment_direct [OF assms(1), of s K n vif st] Cons.prems(2) by simp
  show ?case
  proof (cases "segs = []")
    case True
    then show ?thesis using one by (simp del: linux_xmit.simps)
  next
    case False
    have "linux_xmit_segments K (linux_xmit (Suc n) K) vif segs type
            (st\<lparr>tx_events := tx_events st @ [Dev_queue_xmit s]\<rparr>)
        = Inr (0, st\<lparr>tx_events := tx_events st @ [Dev_queue_xmit s]\<rparr>
                 \<lparr>tx_events := tx_events (st\<lparr>tx_events := tx_events st @ [Dev_queue_xmit s]\<rparr>)
                                  @ map Dev_queue_xmit segs\<rparr>)"
      using Cons.prems(2) by (intro Cons.IH [OF False]) simp
    then show ?thesis using one False by (simp del: linux_xmit.simps)
  qed
qed

lemma linux_inet_fragment_stamp_dev:
  "skb_dev (linux_inet_fragment_stamp K id' mf off s) = skb_dev s"
  by (simp add: linux_inet_fragment_stamp_def Let_def set_ip_at_def)

lemma linux_inet_fragment_loop_set:
  "x \<in> set (linux_inet_fragment_loop K id' fr off segs) \<Longrightarrow>
   \<exists>s \<in> set segs. skb_len x = skb_len s \<and> skb_dev x = skb_dev s"
  by (induction segs arbitrary: off) (auto simp: linux_inet_fragment_stamp_fields linux_inet_fragment_stamp_dev)

text \<open>
  The whole path on the 3000-byte packet, with a segmentation that works: two nested
  calls of \<open>linux_xmit\<close> suffice; the pulled original is freed and the three
  fragments, headers written, go to the device in order.
\<close>

lemma linux_xmit_pkt_3000:
  "linux_xmit (Suc (Suc 0)) K_segments vif_phys pkt_3000 VP_TYPE_IP st0 =
     Inr (0, \<lparr>tx_events =
                Kfree_skb (skb_pull (pkt_3000\<lparr>skb_gso_size := 1464\<rparr>) 34)
                # map Dev_queue_xmit
                    (linux_inet_fragment_loop K_segments 0 False 0 [frag_full, frag_full, frag_tail]),
              ip_ids_drawn = 0\<rparr>)"
proof -
  let ?out = "linux_inet_fragment_loop K_segments 0 False 0 [frag_full, frag_full, frag_tail]"
  have small: "\<forall>s \<in> set ?out. skb_len s \<le> dev_mtu (skb_dev s) + ucast (dev_hard_header_len (skb_dev s))
                           \<and> dev_queue_xmit K_segments s = 0"
  proof
    fix x assume "x \<in> set ?out"
    from linux_inet_fragment_loop_set [OF this] have "(skb_len x = 1498 \<or> skb_len x = 106) \<and> skb_dev x = eth0"
      by (auto simp: frag_full_def frag_tail_def skb0_def)
    then show "skb_len x \<le> dev_mtu (skb_dev x) + ucast (dev_hard_header_len (skb_dev x))
                           \<and> dev_queue_xmit K_segments x = 0"
      by (auto simp: eth0_def K_segments_def K0_def)
  qed
  have ne: "?out \<noteq> []" by simp
  have x: "linux_xmit (Suc (Suc 0)) K_segments vif_phys pkt_3000 VP_TYPE_IP st0
      = linux_inet_fragment K_segments (linux_xmit (Suc 0) K_segments) vif_phys pkt_3000 VP_TYPE_IP st0"
    by (simp add: pkt_3000_def skb0_def eth0_def vif_phys_def Let_def ntohs_htons)
  have f: "linux_inet_fragment K_segments (linux_xmit (Suc 0) K_segments) vif_phys pkt_3000 VP_TYPE_IP st0
      = linux_xmit_segments K_segments (linux_xmit (Suc 0) K_segments) vif_phys ?out VP_TYPE_IP
          (kfree_skb (skb_pull (pkt_3000\<lparr>skb_gso_size := 1464\<rparr>) 34) st0)"
    by (simp add: linux_inet_fragment_def pkt_3000_def skb0_def ip_hdr_def hdr0_def eth0_def
        linux_inet_fragment_size_3000 Let_def K_segments_def K0_def ntohs_def IP_MF_def IP_OFFSET_def
        del: linux_inet_fragment_loop.simps linux_xmit.simps linux_xmit_segments.simps)
  show ?thesis
    unfolding x f
    using linux_xmit_segments_direct [OF _ ne small, of VP_TYPE_IP 0 vif_phys]
    by (simp add: kfree_skb_def st0_def del: linux_inet_fragment_loop.simps linux_xmit.simps)
qed

subsection \<open>A last fragment shorter than 64 bytes\<close>

text \<open>
  What the fragmenter hands on, for any kernel and any callee: when the size computation
  returns \<open>F\<close>, no checksum help is asked for and \<open>skb_segment\<close> returns a list of
  segments for the pulled buffer with \<open>gso_size = F\<close>, the fragmenter frees that buffer
  and passes the segments, their headers written by the loop, to \<open>linux_xmit_segments\<close>.
\<close>

lemma linux_inet_fragment_hands_on:
  assumes sz: "linux_inet_fragment_size
                 (skb_len skb - ucast (skb_mac_len skb) - ucast (ip_hl (ip_hdr skb)) * 4)
                 (dev_mtu (skb_dev skb) - ucast (skb_mac_len skb) - ucast (ip_hl (ip_hdr skb)) * 4)
               = Some F"
      and cs: "skb_ip_summed skb \<noteq> CHECKSUM_PARTIAL"
      and sg: "skb_segment K
                 (skb_pull (skb\<lparr>skb_gso_size := ucast F\<rparr>)
                    (ucast (skb_mac_len skb) + ucast (ip_hl (ip_hdr skb)) * 4))
                 (netif_skb_features K skb AND NOT (gso_feature_bits K)) = Inr segs"
      and ne: "segs \<noteq> []"
  shows "linux_inet_fragment K xmit vif skb type st =
           linux_xmit_segments K xmit vif
             (linux_inet_fragment_loop K (ntohs (ip_id (ip_hdr skb)))
                (ntohs (ip_frag_off (ip_hdr skb)) AND IP_MF \<noteq> 0)
                (push_bit 3 (ucast (ntohs (ip_frag_off (ip_hdr skb)) AND IP_OFFSET))) segs)
             type
             (kfree_skb (skb_pull (skb\<lparr>skb_gso_size := ucast F\<rparr>)
                    (ucast (skb_mac_len skb) + ucast (ip_hl (ip_hdr skb)) * 4)) st)"
proof -
  from ne obtain x xs where c: "segs = x # xs" by (cases segs) auto
  show ?thesis
    unfolding linux_inet_fragment_def Let_def
    using sz cs sg
    by (simp add: c del: linux_inet_fragment_loop.simps linux_xmit_segments.simps)
qed

text \<open>A batch of segments that are not tunnel packets, with a callee that records them.\<close>

lemma linux_xmit_segments_recorded:
  assumes "type \<noteq> VP_TYPE_IPOIP" and "segs \<noteq> []"
  shows "linux_xmit_segments K xmit_recorder vif segs type st =
           Inr (0, st\<lparr>tx_events := tx_events st @ map Dev_queue_xmit segs\<rparr>)"
  using assms(2)
proof (induction segs arbitrary: st)
  case Nil
  then show ?case by simp
next
  case (Cons s segs)
  have one: "linux_xmit_segment K xmit_recorder vif s type st =
           Inr (0, st\<lparr>tx_events := tx_events st @ [Dev_queue_xmit s]\<rparr>)"
    using assms(1) by (simp add: linux_xmit_segment_def xmit_recorder_def)
  show ?case
  proof (cases "segs = []")
    case True
    then show ?thesis using one by simp
  next
    case False
    from Cons.IH [OF False]
    show ?thesis using one False by simp
  qed
qed

text \<open>
  The packet of 27777 payload bytes on the link of MTU 576: the size, the cut, and the
  whole run of the fragmenter.
\<close>

lemma linux_inet_fragment_size_27777: "linux_inet_fragment_size 27777 510 = Some 496"
  by (simp add: linux_inet_fragment_size_def Let_def)

lemma segment_lengths_27777:
  "segment_lengths 27777 504 = replicate 55 504 @ [57]"
  "segment_lengths 27777 496 = replicate 56 496 @ [1]"
  by (simp_all add: segment_lengths_def)

lemma skb_segment_pkt_27777:
  "skb_segment K_cut (skb_pull (pkt_27777\<lparr>skb_gso_size := 496\<rparr>) 66) 0
     = Inr (replicate 56 (frag_of 496) @ [frag_of 1])"
  by (simp add: K_cut_def K0_def skb_pull_def pkt_27777_def skb0_def segment_lengths_def frag_of_def)

lemma linux_inet_fragment_pkt_27777:
  "linux_inet_fragment K_cut xmit_recorder vif_576 pkt_27777 VP_TYPE_IP st0
     = Inr (0, \<lparr>tx_events = Kfree_skb (skb_pull (pkt_27777\<lparr>skb_gso_size := 496\<rparr>) 66)
                 # map Dev_queue_xmit (linux_inet_fragment_loop K_cut 0 False 0
                      (replicate 56 (frag_of 496) @ [frag_of 1])),
               ip_ids_drawn = 0\<rparr>)"
proof -
  have f: "ip_hl (ip_hdr pkt_27777) = 5" "ip_id (ip_hdr pkt_27777) = 0"
      "ip_frag_off (ip_hdr pkt_27777) = 0" "skb_len pkt_27777 = 27843"
      "skb_mac_len pkt_27777 = 46" "dev_mtu (skb_dev pkt_27777) = 576"
      "skb_ip_summed pkt_27777 \<noteq> CHECKSUM_PARTIAL"
    by (simp_all add: pkt_27777_def skb0_def ip_hdr_def hdr0_def link576_def)
  have k: "netif_skb_features K_cut pkt_27777 AND NOT (gso_feature_bits K_cut) = 0"
    by (simp add: K_cut_def K0_def)
  have ne: "replicate 56 (frag_of 496) @ [frag_of 1] \<noteq> []" by simp
  have h: "linux_inet_fragment K_cut xmit_recorder vif_576 pkt_27777 VP_TYPE_IP st0 =
      linux_xmit_segments K_cut xmit_recorder vif_576
        (linux_inet_fragment_loop K_cut 0 False 0 (replicate 56 (frag_of 496) @ [frag_of 1]))
        VP_TYPE_IP (kfree_skb (skb_pull (pkt_27777\<lparr>skb_gso_size := 496\<rparr>) 66) st0)"
    using linux_inet_fragment_hands_on [of pkt_27777 496 K_cut
        "replicate 56 (frag_of 496) @ [frag_of 1]" xmit_recorder vif_576 VP_TYPE_IP st0]
    by (simp add: f k linux_inet_fragment_size_27777 skb_segment_pkt_27777 ntohs_def IP_MF_def
          IP_OFFSET_def del: linux_inet_fragment_loop.simps linux_xmit_segments.simps)
  have ne2: "linux_inet_fragment_loop K_cut 0 False 0 (replicate 56 (frag_of 496) @ [frag_of 1]) \<noteq> []"
    using linux_inet_fragment_loop_length [of K_cut 0 False 0 "replicate 56 (frag_of 496) @ [frag_of 1]"]
    by (metis ne length_0_conv)
  show ?thesis
    unfolding h
    using linux_xmit_segments_recorded [OF _ ne2, of VP_TYPE_IP K_cut vif_576]
    by (simp add: kfree_skb_def st0_def del: linux_inet_fragment_loop.simps)
qed

lemma linux_inet_fragment_advance_27777:
  "map linux_inet_fragment_advance (replicate 56 (frag_of 496) @ [frag_of 1])
     = replicate 56 496 @ [1]"
  by (simp add: linux_inet_fragment_advance_def frag_of_def pkt_27777_def skb0_def ip_hdr_def
      hdr0_def)

text \<open>
  C3, the code at a failing input. An IPv4 packet of 27777 payload bytes behind 46
  bytes of link and tunnel headers and a 20-byte IP header, on a link of MTU 576. The
  first rounded size, 504, leaves a last fragment of 57 bytes; the shrink step of
  \<open>linux_inet_fragment\<close> takes the size to 496, and 56 fragments of 496 bytes leave one
  byte for the last. The fragmenter asks \<open>skb_segment\<close> for pieces of 496 bytes and,
  with a segmentation that cuts at that size, sends 56 fragments that carry 496 payload
  bytes and a last one that carries 1 byte, although the payload is far larger than 64
  bytes.
\<close>

theorem linux_inet_fragment_short_last_fragment:
  "linux_inet_fragment_size 27777 (576 - ucast (46 :: 16 word) - 20) = Some 496
   \<and> segment_lengths 27777 504 = replicate 55 504 @ [57]
   \<and> segment_lengths 27777 496 = replicate 56 496 @ [1]
   \<and> last (segment_lengths 27777 496) < 64
   \<and> skb_segment K_cut (skb_pull (pkt_27777\<lparr>skb_gso_size := 496\<rparr>) 66) 0
       = Inr (replicate 56 (frag_of 496) @ [frag_of 1])
   \<and> linux_inet_fragment K_cut xmit_recorder vif_576 pkt_27777 VP_TYPE_IP st0
       = Inr (0, \<lparr>tx_events = Kfree_skb (skb_pull (pkt_27777\<lparr>skb_gso_size := 496\<rparr>) 66)
                   # map Dev_queue_xmit (linux_inet_fragment_loop K_cut 0 False 0
                        (replicate 56 (frag_of 496) @ [frag_of 1])),
                 ip_ids_drawn = 0\<rparr>)
   \<and> map linux_inet_fragment_advance (replicate 56 (frag_of 496) @ [frag_of 1])
       = replicate 56 496 @ [1]"
proof -
  have s: "linux_inet_fragment_size 27777 (576 - ucast (46 :: 16 word) - 20) = Some 496"
    by (simp add: linux_inet_fragment_size_27777)
  have l: "last (segment_lengths 27777 496) < 64"
    by (simp add: segment_lengths_27777)
  show ?thesis
    using s l segment_lengths_27777 skb_segment_pkt_27777 linux_inet_fragment_pkt_27777
      linux_inet_fragment_advance_27777
    by (simp only: simp_thms)
qed

end
